theory Spec2Isabelle
  imports Complex_Main "HOL-Library.Multiset"
begin

section \<open>Python values and exceptions\<close>

text \<open>
  The functions of \<^verbatim>\<open>indra/explanation/pathfinding/util.py\<close> are dynamically typed:
  a sign may be an integer, a string, \<^verbatim>\<open>None\<close> and so on, and what the code does
  depends on which exception the builtin \<^verbatim>\<open>int()\<close> raises. The values that can
  reach the sign arguments are a datatype; a raised exception is the left summand of a
  result.
\<close>

datatype pyfloat = Finite rat | Infinity bool | NaN

datatype pyval =
    PNone
  | PBool bool
  | PInt int
  | PFloat pyfloat
  | PStr string
  | PTuple "pyval list"
  | PList "pyval list"

datatype error = ValueError | TypeError | KeyError | OverflowError | NetworkXError

text \<open>Truncation towards zero, as \<^verbatim>\<open>int()\<close> does on a finite float.\<close>

definition trunc_rat :: "rat \<Rightarrow> int" where
  "trunc_rat r = (if r < 0 then - \<lfloor>- r\<rfloor> else \<lfloor>r\<rfloor>)"

text \<open>
  The builtin \<^verbatim>\<open>int(x)\<close>. How a string is read as an integer literal is a parameter
  \<open>parse\<close> (\<open>None\<close> when the string is no literal, where Python raises
  \<^verbatim>\<open>ValueError\<close>); everything proved below holds for every such reader.
  \<^verbatim>\<open>None\<close>, tuples and lists raise \<^verbatim>\<open>TypeError\<close>, a NaN raises
  \<^verbatim>\<open>ValueError\<close> and an infinity \<^verbatim>\<open>OverflowError\<close>.
\<close>

fun py_int :: "(string \<Rightarrow> int option) \<Rightarrow> pyval \<Rightarrow> error + int" where
  "py_int parse PNone = Inl TypeError"
| "py_int parse (PBool b) = Inr (if b then 1 else 0)"
| "py_int parse (PInt i) = Inr i"
| "py_int parse (PFloat (Finite r)) = Inr (trunc_rat r)"
| "py_int parse (PFloat (Infinity s)) = Inl OverflowError"
| "py_int parse (PFloat NaN) = Inl ValueError"
| "py_int parse (PStr s) = (case parse s of None \<Rightarrow> Inl ValueError | Some i \<Rightarrow> Inr i)"
| "py_int parse (PTuple xs) = Inl TypeError"
| "py_int parse (PList xs) = Inl TypeError"

subsection \<open>A reader of decimal literals\<close>

text \<open>
  A concrete reader to run the functions on strings: surrounding white space, an optional
  sign, then decimal digits, where single underscores may separate digits.
\<close>

definition is_space :: "char \<Rightarrow> bool" where
  "is_space c = (let n = (of_char c :: nat) in (9 \<le> n \<and> n \<le> 13) \<or> (28 \<le> n \<and> n \<le> 32))"

definition digit_val :: "char \<Rightarrow> nat option" where
  "digit_val c = (let n = (of_char c :: nat) in
     if 48 \<le> n \<and> n \<le> 57 then Some (n - 48) else None)"

fun parse_digits :: "nat \<Rightarrow> bool \<Rightarrow> string \<Rightarrow> nat option" where
  "parse_digits acc prev [] = (if prev then Some acc else None)"
| "parse_digits acc prev (c # cs) =
     (if c = CHR ''_'' then
        (if prev \<and> cs \<noteq> [] then parse_digits acc False cs else None)
      else (case digit_val c of
              None \<Rightarrow> None
            | Some d \<Rightarrow> parse_digits (10 * acc + d) True cs))"

definition strip :: "string \<Rightarrow> string" where
  "strip s = rev (dropWhile is_space (rev (dropWhile is_space s)))"

definition int_of_str :: "string \<Rightarrow> int option" where
  "int_of_str s =
     (case strip s of
        [] \<Rightarrow> None
      | c # cs \<Rightarrow>
          if c = CHR ''-'' then map_option (\<lambda>n. - int n) (parse_digits 0 False cs)
          else if c = CHR ''+'' then map_option int (parse_digits 0 False cs)
          else map_option int (parse_digits 0 False (c # cs)))"

section \<open>Signed nodes and signed edges\<close>

text \<open>
  A warning written to the module's logger is an event; each function returns the events
  it logged next to its value.
\<close>

datatype log_event =
    InvalidSign pyval
  | TranslateError "pyval \<times> pyval" "pyval \<times> pyval"

type_synonym signed_node = "pyval \<times> pyval"

text \<open>
  \<^verbatim>\<open>path_sign_to_signed_nodes(source, target, edge_sign)\<close>: the \<^verbatim>\<open>try\<close> block
  catches \<^verbatim>\<open>ValueError\<close> only, so every other exception of \<^verbatim>\<open>int()\<close> leaves
  the function.
\<close>

definition path_sign_to_signed_nodes ::
  "(string \<Rightarrow> int option) \<Rightarrow> pyval \<Rightarrow> pyval \<Rightarrow> pyval
     \<Rightarrow> error + ((signed_node \<times> signed_node) \<times> log_event list)" where
  "path_sign_to_signed_nodes parse source target edge_sign =
     (case py_int parse edge_sign of
        Inr i \<Rightarrow>
          if i = 0 then Inr (((source, PInt 0), (target, PInt 0)), [])
          else Inr (((source, PInt 1), (target, PInt 0)), [])
      | Inl ValueError \<Rightarrow>
          Inr (((PNone, PNone), (PNone, PNone)), [InvalidSign edge_sign])
      | Inl e \<Rightarrow> Inl e)"

text \<open>
  \<^verbatim>\<open>signed_nodes_to_signed_edge(source, target)\<close>: \<^verbatim>\<open>int(source_sign)\<close> is
  evaluated before \<^verbatim>\<open>int(target_sign)\<close>, so the first exception decides.
\<close>

definition signed_nodes_to_signed_edge ::
  "(string \<Rightarrow> int option) \<Rightarrow> signed_node \<Rightarrow> signed_node
     \<Rightarrow> error + ((pyval \<times> pyval \<times> pyval) \<times> log_event list)" where
  "signed_nodes_to_signed_edge parse source target =
     (case source of (source_name, source_sign) \<Rightarrow>
      case target of (target_name, target_sign) \<Rightarrow>
        (case py_int parse source_sign of
           Inl ValueError \<Rightarrow> Inr ((PNone, PNone, PNone), [TranslateError source target])
         | Inl e \<Rightarrow> Inl e
         | Inr i \<Rightarrow>
             (case py_int parse target_sign of
                Inl ValueError \<Rightarrow> Inr ((PNone, PNone, PNone), [TranslateError source target])
              | Inl e \<Rightarrow> Inl e
              | Inr j \<Rightarrow>
                  if i = j then Inr ((source_name, target_name, PInt 0), [])
                  else Inr ((source_name, target_name, PInt 1), []))))"

section \<open>Graphs\<close>

text \<open>
  The graphs are networkx graphs. An edge's attribute dictionary holds the two attributes
  the module reads: \<^verbatim>\<open>belief\<close>, a number, and \<^verbatim>\<open>statements\<close>, a list of
  statement dictionaries of which the key \<^verbatim>\<open>internal\<close> is read. Either key may be
  missing (\<open>None\<close>). Beliefs are rationals: every finite float is one, and they compare
  the same way.
\<close>

record stmts_dict =
  internal :: "bool option"

record eattrs =
  belief :: "rat option"
  statements :: "stmts_dict list option"

text \<open>The key of a parallel edge of a multigraph: an integer by default, or a string.\<close>

datatype key = IKey int | SKey string

text \<open>
  A \<^verbatim>\<open>DiGraph\<close> is its nodes in insertion order and its edges in insertion order;
  the dictionaries \<^verbatim>\<open>_succ[u]\<close> and \<^verbatim>\<open>_pred[v]\<close> list the neighbours in the order
  of the edge list. A \<^verbatim>\<open>MultiDiGraph\<close> has a key on every edge; its list is in the
  order in which \<^verbatim>\<open>_succ\<close> is traversed.
\<close>

record 'n digraph =
  dnodes :: "'n list"
  dedges :: "('n \<times> 'n \<times> eattrs) list"

record 'n multidigraph =
  mnodes :: "'n list"
  medges :: "('n \<times> 'n \<times> key \<times> eattrs) list"

datatype 'n graph = DiGraph "'n digraph" | MultiDiGraph "'n multidigraph"

text \<open>
  What the dictionaries of networkx guarantee of these lists: no node and no edge twice,
  and every endpoint a node.
\<close>

definition wf_digraph :: "'n digraph \<Rightarrow> bool" where
  "wf_digraph g \<longleftrightarrow>
     distinct (dnodes g) \<and> distinct (map (\<lambda>(u, v, d). (u, v)) (dedges g))
     \<and> (\<forall>(u, v, d) \<in> set (dedges g). u \<in> set (dnodes g) \<and> v \<in> set (dnodes g))"

definition wf_multidigraph :: "'n multidigraph \<Rightarrow> bool" where
  "wf_multidigraph g \<longleftrightarrow>
     distinct (mnodes g) \<and> distinct (map (\<lambda>(u, v, k, d). (u, v, k)) (medges g))
     \<and> (\<forall>(u, v, k, d) \<in> set (medges g). u \<in> set (mnodes g) \<and> v \<in> set (mnodes g))"

fun wf_graph :: "'n graph \<Rightarrow> bool" where
  "wf_graph (DiGraph g) = wf_digraph g"
| "wf_graph (MultiDiGraph g) = wf_multidigraph g"

text \<open>The elements of a list, each once, in the order of their first occurrence.\<close>

definition uniq :: "'a list \<Rightarrow> 'a list" where
  "uniq xs = rev (remdups (rev xs))"

section \<open>Neighbours sorted by belief\<close>

text \<open>
  \<^verbatim>\<open>G.successors(n)\<close> and \<^verbatim>\<open>G.predecessors(n)\<close> raise \<^verbatim>\<open>NetworkXError\<close> for a
  node that is not in the graph.
\<close>

definition successors :: "'n digraph \<Rightarrow> 'n \<Rightarrow> error + 'n list" where
  "successors g n =
     (if n \<in> set (dnodes g) then Inr [v. (u, v, d) \<leftarrow> dedges g, u = n]
      else Inl NetworkXError)"

definition predecessors :: "'n digraph \<Rightarrow> 'n \<Rightarrow> error + 'n list" where
  "predecessors g n =
     (if n \<in> set (dnodes g) then Inr [u. (u, v, d) \<leftarrow> dedges g, v = n]
      else Inl NetworkXError)"

text \<open>
  \<^verbatim>\<open>G.in_edges(nbunch)\<close> and \<^verbatim>\<open>G.out_edges(nbunch)\<close> take a node, or else iterate
  over their argument and keep the nodes among its members. What iterating a node object
  yields is the parameter \<open>iter\<close> (\<open>None\<close> for an object that cannot be iterated, where
  networkx raises \<^verbatim>\<open>NetworkXError\<close>).
\<close>

definition nbunch_iter :: "('n \<Rightarrow> 'n list option) \<Rightarrow> 'n digraph \<Rightarrow> 'n \<Rightarrow> error + 'n list" where
  "nbunch_iter iter g nbunch =
     (if nbunch \<in> set (dnodes g) then Inr [nbunch]
      else (case iter nbunch of
              None \<Rightarrow> Inl NetworkXError
            | Some ns \<Rightarrow> Inr (filter (\<lambda>n. n \<in> set (dnodes g)) ns)))"

definition in_edges ::
  "('n \<Rightarrow> 'n list option) \<Rightarrow> 'n digraph \<Rightarrow> 'n \<Rightarrow> error + ('n \<times> 'n) list" where
  "in_edges iter g nbunch =
     (case nbunch_iter iter g nbunch of
        Inl e \<Rightarrow> Inl e
      | Inr ns \<Rightarrow> Inr (concat (map (\<lambda>n. [(u, n). (u, v, d) \<leftarrow> dedges g, v = n]) ns)))"

definition out_edges ::
  "('n \<Rightarrow> 'n list option) \<Rightarrow> 'n digraph \<Rightarrow> 'n \<Rightarrow> error + ('n \<times> 'n) list" where
  "out_edges iter g nbunch =
     (case nbunch_iter iter g nbunch of
        Inl e \<Rightarrow> Inl e
      | Inr ns \<Rightarrow> Inr (concat (map (\<lambda>n. [(n, v). (u, v, d) \<leftarrow> dedges g, u = n]) ns)))"

text \<open>
  The sort key \<^verbatim>\<open>G.edges[(u, v)].get('belief', 0)\<close>: \<^verbatim>\<open>KeyError\<close> when the graph
  has no such edge, 0 when the edge has no belief.
\<close>

definition get_belief :: "eattrs \<Rightarrow> rat" where
  "get_belief d = (case belief d of None \<Rightarrow> 0 | Some x \<Rightarrow> x)"

definition edge_belief :: "'n digraph \<Rightarrow> 'n \<Rightarrow> 'n \<Rightarrow> error + rat" where
  "edge_belief g u v =
     (case find (\<lambda>(a, b, d). a = u \<and> b = v) (dedges g) of
        None \<Rightarrow> Inl KeyError
      | Some (a, b, d) \<Rightarrow> Inr (get_belief d))"

text \<open>Evaluating a function that may raise on each element in turn: the first exception wins.\<close>

fun map_err :: "('a \<Rightarrow> error + 'b) \<Rightarrow> 'a list \<Rightarrow> error + 'b list" where
  "map_err f [] = Inr []"
| "map_err f (x # xs) =
     (case f x of
        Inl e \<Rightarrow> Inl e
      | Inr y \<Rightarrow> (case map_err f xs of Inl e \<Rightarrow> Inl e | Inr ys \<Rightarrow> Inr (y # ys)))"

text \<open>
  \<^verbatim>\<open>sorted(xs, key=key, reverse=True)\<close>: the keys are computed once, in order; the list
  is reversed, sorted stably by ascending key, and reversed again.
\<close>

definition py_sorted_reverse :: "('a \<Rightarrow> error + rat) \<Rightarrow> 'a list \<Rightarrow> error + 'a list" where
  "py_sorted_reverse key xs =
     (case map_err key xs of
        Inl e \<Rightarrow> Inl e
      | Inr ks \<Rightarrow> Inr (map fst (rev (sort_key snd (rev (zip xs ks))))))"

text \<open>
  \<^verbatim>\<open>get_sorted_neighbors(G, node, reverse, force_edges=None)\<close> on a \<^verbatim>\<open>DiGraph\<close>.
  The test \<^verbatim>\<open>if force_edges:\<close> holds for a non-empty list only. The order in which
  Python iterates over the set \<^verbatim>\<open>set(G.in_edges(node)).intersection(set(force_edges))\<close>
  depends on hashes: it is the parameter \<open>ord\<close>, applied to the elements of the
  intersection.
\<close>

definition get_sorted_neighbors ::
  "(('n \<times> 'n) list \<Rightarrow> ('n \<times> 'n) list) \<Rightarrow> ('n \<Rightarrow> 'n list option) \<Rightarrow> 'n digraph \<Rightarrow> 'n \<Rightarrow> bool
     \<Rightarrow> ('n \<times> 'n) list option \<Rightarrow> error + 'n list" where
  "get_sorted_neighbors ord iter g node reverse force_edges =
     (if reverse then
        (case (case force_edges of
                 Some (f # fs) \<Rightarrow>
                   (case in_edges iter g node of
                      Inl e \<Rightarrow> Inl e
                    | Inr es \<Rightarrow>
                        Inr (map fst (ord (filter (\<lambda>e. e \<in> set (f # fs)) (uniq es)))))
               | _ \<Rightarrow> predecessors g node) of
           Inl e \<Rightarrow> Inl e
         | Inr neighbors \<Rightarrow> py_sorted_reverse (\<lambda>n. edge_belief g n node) neighbors)
      else
        (case (case force_edges of
                 Some (f # fs) \<Rightarrow>
                   (case out_edges iter g node of
                      Inl e \<Rightarrow> Inl e
                    | Inr es \<Rightarrow>
                        Inr (map snd (ord (filter (\<lambda>e. e \<in> set (f # fs)) (uniq es)))))
               | _ \<Rightarrow> successors g node) of
           Inl e \<Rightarrow> Inl e
         | Inr neighbors \<Rightarrow> py_sorted_reverse (\<lambda>n. edge_belief g node n) neighbors))"

section \<open>The edge-filter registry and subgraphs\<close>

text \<open>
  Graphs are objects: the store \<open>objects\<close> holds them, and a reference is an index into
  it. The module has two globals: \<^verbatim>\<open>G\<close>, which is \<^verbatim>\<open>None\<close> or a reference to a
  graph, and the dictionary \<^verbatim>\<open>edge_filter_functions\<close> from names to predicates. A
  predicate is a Python function of \<open>u\<close>, \<open>v\<close> and, for a multigraph, a key; it can read
  the store and the global \<^verbatim>\<open>G\<close>, which are its first two arguments here.
\<close>

type_synonym 'n edge_filter =
  "'n graph list \<Rightarrow> nat option \<Rightarrow> 'n \<Rightarrow> 'n \<Rightarrow> key list \<Rightarrow> error + bool"

record 'n module_state =
  objects :: "'n graph list"
  G :: "nat option"
  edge_filter_functions :: "string \<rightharpoonup> 'n edge_filter"

text \<open>
  The object behind a reference; \<open>None\<close> for \<^verbatim>\<open>None\<close> (and for an index outside the
  store, which no Python reference is).
\<close>

definition deref :: "'n graph list \<Rightarrow> nat option \<Rightarrow> 'n graph option" where
  "deref objs r =
     (case r of
        None \<Rightarrow> None
      | Some a \<Rightarrow> if a < length objs then Some (objs ! a) else None)"

text \<open>
  \<^verbatim>\<open>register_edge_filter(function)\<close> stores the function under its name; a later
  registration of the same name replaces the earlier one.
\<close>

definition register_edge_filter ::
  "string \<Rightarrow> 'n edge_filter \<Rightarrow> 'n module_state \<Rightarrow> 'n module_state" where
  "register_edge_filter name function st =
     st\<lparr>edge_filter_functions := (edge_filter_functions st)(name \<mapsto> function)\<rparr>"

subsection \<open>The predicate \<^verbatim>\<open>filter_to_internal_edges\<close>\<close>

text \<open>
  \<^verbatim>\<open>G[u][v]\<close> is the attribute dictionary of the edge in a \<^verbatim>\<open>DiGraph\<close> and the
  dictionary from keys to attribute dictionaries in a \<^verbatim>\<open>MultiDiGraph\<close>;
  \<^verbatim>\<open>KeyError\<close> when there is no edge from \<open>u\<close> to \<open>v\<close>.
\<close>

datatype adj_value = AttrDict eattrs | KeyDict "(key \<times> eattrs) list"

definition graph_getitem :: "'n graph \<Rightarrow> 'n \<Rightarrow> 'n \<Rightarrow> error + adj_value" where
  "graph_getitem g u v =
     (case g of
        DiGraph dg \<Rightarrow>
          (case find (\<lambda>(a, b, d). a = u \<and> b = v) (dedges dg) of
             None \<Rightarrow> Inl KeyError
           | Some (a, b, d) \<Rightarrow> Inr (AttrDict d))
      | MultiDiGraph mg \<Rightarrow>
          (case [(k, d). (a, b, k, d) \<leftarrow> medges mg, a = u \<and> b = v] of
             [] \<Rightarrow> Inl KeyError
           | kds \<Rightarrow> Inr (KeyDict kds)))"

text \<open>
  The value bound to \<^verbatim>\<open>edge\<close>: \<^verbatim>\<open>G[u][v]\<close> itself, or \<^verbatim>\<open>G[u][v][args[0]]\<close>,
  which in a \<^verbatim>\<open>DiGraph\<close> is the value of the attribute named \<^verbatim>\<open>args[0]\<close>.
\<close>

datatype edge_value =
    EdgeAttrs eattrs
  | EdgeKeys "(key \<times> eattrs) list"
  | EdgeNumber rat
  | EdgeStatements "stmts_dict list"

definition getitem_key :: "adj_value \<Rightarrow> key \<Rightarrow> error + edge_value" where
  "getitem_key a k =
     (case a of
        AttrDict d \<Rightarrow>
          if k = SKey ''belief'' then
            (case belief d of None \<Rightarrow> Inl KeyError | Some r \<Rightarrow> Inr (EdgeNumber r))
          else if k = SKey ''statements'' then
            (case statements d of None \<Rightarrow> Inl KeyError | Some l \<Rightarrow> Inr (EdgeStatements l))
          else Inl KeyError
      | KeyDict kds \<Rightarrow>
          (case map_of kds k of None \<Rightarrow> Inl KeyError | Some d \<Rightarrow> Inr (EdgeAttrs d)))"

text \<open>
  The loop \<^verbatim>\<open>for stmts_dict in ...: if stmts_dict['internal']: return True\<close>, then
  \<^verbatim>\<open>return False\<close>. A dictionary without the key raises \<^verbatim>\<open>KeyError\<close> when the
  loop reaches it.
\<close>

fun stmts_loop :: "stmts_dict list \<Rightarrow> error + bool" where
  "stmts_loop [] = Inr False"
| "stmts_loop (s # ss) =
     (case internal s of
        None \<Rightarrow> Inl KeyError
      | Some b \<Rightarrow> if b then Inr True else stmts_loop ss)"

text \<open>
  \<^verbatim>\<open>edge['statements']\<close> and the loop over it. On the key dictionary of a multigraph
  the subscript finds a parallel edge whose key is the string \<^verbatim>\<open>statements\<close>, if there
  is one; the loop then runs over the attribute names of that edge and subscripts a string,
  a \<^verbatim>\<open>TypeError\<close>, unless the edge has no attribute. A number or a list cannot be
  subscripted by a string.
\<close>

definition scan_edge :: "edge_value \<Rightarrow> error + bool" where
  "scan_edge edge =
     (case edge of
        EdgeAttrs d \<Rightarrow>
          (case statements d of None \<Rightarrow> Inl KeyError | Some l \<Rightarrow> stmts_loop l)
      | EdgeKeys kds \<Rightarrow>
          (case map_of kds (SKey ''statements'') of
             None \<Rightarrow> Inl KeyError
           | Some d \<Rightarrow>
               if belief d = None \<and> statements d = None then Inr False else Inl TypeError)
      | EdgeNumber r \<Rightarrow> Inl TypeError
      | EdgeStatements l \<Rightarrow> Inl TypeError)"

text \<open>
  \<^verbatim>\<open>filter_to_internal_edges(u, v, *args)\<close>. The graph is not a parameter: it is
  whatever the global \<^verbatim>\<open>G\<close> refers to. Subscripting \<^verbatim>\<open>None\<close> raises
  \<^verbatim>\<open>TypeError\<close>.
\<close>

definition filter_to_internal_edges :: "'n edge_filter" where
  "filter_to_internal_edges objs Gref u v args =
     (case deref objs Gref of
        None \<Rightarrow> Inl TypeError
      | Some g \<Rightarrow>
          (case graph_getitem g u v of
             Inl e \<Rightarrow> Inl e
           | Inr a \<Rightarrow>
               (case (case args of
                        k # ks \<Rightarrow> getitem_key a k
                      | [] \<Rightarrow> Inr (case a of AttrDict d \<Rightarrow> EdgeAttrs d
                                            | KeyDict kds \<Rightarrow> EdgeKeys kds)) of
                  Inl e \<Rightarrow> Inl e
                | Inr edge \<Rightarrow> scan_edge edge)))"

subsection \<open>\<^verbatim>\<open>get_subgraph\<close>\<close>

text \<open>
  \<^verbatim>\<open>nx.subgraph_view(g, filter_edge=filter_edge).copy()\<close>. The copy adds all nodes,
  then walks the adjacency of the view: for each node \<open>u\<close> in node order, each neighbour
  \<open>v\<close> of \<open>u\<close> (and each key) is offered to \<^verbatim>\<open>filter_edge\<close>, which the view calls as
  \<^verbatim>\<open>filter_edge(u, v)\<close> or \<^verbatim>\<open>filter_edge(u, v, key)\<close>. Calling a \<^verbatim>\<open>filter_edge\<close> that
  is \<^verbatim>\<open>None\<close> raises \<^verbatim>\<open>TypeError\<close>. The first exception ends the copy.
\<close>

definition call_filter ::
  "('n \<Rightarrow> 'n \<Rightarrow> key list \<Rightarrow> error + bool) option \<Rightarrow> 'n \<Rightarrow> 'n \<Rightarrow> key list \<Rightarrow> error + bool" where
  "call_filter filter_edge u v args =
     (case filter_edge of None \<Rightarrow> Inl TypeError | Some f \<Rightarrow> f u v args)"

fun keep_edges :: "('e \<Rightarrow> error + bool) \<Rightarrow> 'e list \<Rightarrow> error + 'e list" where
  "keep_edges ok [] = Inr []"
| "keep_edges ok (e # es) =
     (case ok e of
        Inl x \<Rightarrow> Inl x
      | Inr b \<Rightarrow>
          (case keep_edges ok es of
             Inl x \<Rightarrow> Inl x
           | Inr kept \<Rightarrow> Inr (if b then e # kept else kept)))"

definition adj_order :: "'n list \<Rightarrow> ('n \<times> 'b) list \<Rightarrow> ('n \<times> 'b) list" where
  "adj_order ns es = concat (map (\<lambda>u. filter (\<lambda>e. fst e = u) es) ns)"

definition madj_order :: "'n list \<Rightarrow> ('n \<times> 'n \<times> 'b) list \<Rightarrow> ('n \<times> 'n \<times> 'b) list" where
  "madj_order ns es =
     concat (map (\<lambda>u. let out = filter (\<lambda>e. fst e = u) es in
                    concat (map (\<lambda>v. filter (\<lambda>e. fst (snd e) = v) out)
                                (uniq (map (\<lambda>e. fst (snd e)) out)))) ns)"

definition subgraph_copy ::
  "('n \<Rightarrow> 'n \<Rightarrow> key list \<Rightarrow> error + bool) option \<Rightarrow> 'n graph \<Rightarrow> error + 'n graph" where
  "subgraph_copy filter_edge g =
     (case g of
        DiGraph dg \<Rightarrow>
          (case keep_edges (\<lambda>(u, v, d). call_filter filter_edge u v [])
                  (adj_order (dnodes dg) (dedges dg)) of
             Inl e \<Rightarrow> Inl e
           | Inr es \<Rightarrow> Inr (DiGraph \<lparr>dnodes = dnodes dg, dedges = es\<rparr>))
      | MultiDiGraph mg \<Rightarrow>
          (case keep_edges (\<lambda>(u, v, k, d). call_filter filter_edge u v [k])
                  (madj_order (mnodes mg) (medges mg)) of
             Inl e \<Rightarrow> Inl e
           | Inr es \<Rightarrow> Inr (MultiDiGraph \<lparr>mnodes = mnodes mg, medges = es\<rparr>)))"

text \<open>
  \<^verbatim>\<open>get_subgraph(g, filter_func_name)\<close>: the global \<^verbatim>\<open>G\<close> is rebound first, the
  predicate is looked up with \<^verbatim>\<open>dict.get\<close> (\<^verbatim>\<open>None\<close> for a name that is not
  registered), and the copy of the view is a new object. When the copy raises, the global
  stays rebound. The argument \<open>g\<close> is a reference to a graph in the store.
\<close>

definition get_subgraph ::
  "nat \<Rightarrow> string \<Rightarrow> 'n module_state \<Rightarrow> (error + nat) \<times> 'n module_state" where
  "get_subgraph g filter_func_name st =
     (let st1 = st\<lparr>G := Some g\<rparr>;
          filter_edge = map_option (\<lambda>f. f (objects st1) (G st1))
                          (edge_filter_functions st1 filter_func_name)
      in case deref (objects st1) (Some g) of
           None \<Rightarrow> (Inl TypeError, st1)
         | Some gr \<Rightarrow>
             (case subgraph_copy filter_edge gr of
                Inl e \<Rightarrow> (Inl e, st1)
              | Inr new_g \<Rightarrow>
                  (Inr (length (objects st1)), st1\<lparr>objects := objects st1 @ [new_g]\<rparr>)))"

text \<open>The module after import: no graph yet, one registered predicate.\<close>

definition module_init :: "'n module_state" where
  "module_init =
     register_edge_filter ''filter_to_internal_edges'' filter_to_internal_edges
       \<lparr>objects = [], G = None, edge_filter_functions = Map.empty\<rparr>"

text \<open>
  The calls the view makes on a graph: an edge with the argument list the predicate
  receives after \<open>u\<close> and \<open>v\<close>.
\<close>

definition edge_calls :: "'n graph \<Rightarrow> ('n \<times> 'n \<times> key list \<times> eattrs) list" where
  "edge_calls g =
     (case g of
        DiGraph dg \<Rightarrow> map (\<lambda>(u, v, d). (u, v, [], d)) (dedges dg)
      | MultiDiGraph mg \<Rightarrow> map (\<lambda>(u, v, k, d). (u, v, [k], d)) (medges mg))"

definition graph_nodes :: "'n graph \<Rightarrow> 'n list" where
  "graph_nodes g = (case g of DiGraph dg \<Rightarrow> dnodes dg | MultiDiGraph mg \<Rightarrow> mnodes mg)"

subsection \<open>A graph to run the functions on\<close>

text \<open>
  Node \<open>N\<close> with edges to \<open>Z\<close> (no belief), \<open>Y\<close> (belief 0.3) and \<open>X\<close> (belief 0.9),
  added in this order. Iterating a Python string yields its characters as strings.
\<close>

definition belief_graph :: "string digraph" where
  "belief_graph =
     \<lparr>dnodes = [''N'', ''Z'', ''Y'', ''X''],
      dedges = [(''N'', ''Z'', \<lparr>belief = None, statements = None\<rparr>),
                (''N'', ''Y'', \<lparr>belief = Some (3 / 10), statements = None\<rparr>),
                (''N'', ''X'', \<lparr>belief = Some (9 / 10), statements = None\<rparr>)]\<rparr>"

definition str_iter :: "string \<Rightarrow> string list option" where
  "str_iter s = Some (map (\<lambda>c. [c]) s)"

text \<open>
  Two graphs with an edge from \<open>A\<close> to \<open>B\<close>: in the first the edge has a statement with
  \<^verbatim>\<open>internal = True\<close>, in the second it has none. The module state holds both.
\<close>

definition internal_graph :: "string digraph" where
  "internal_graph =
     \<lparr>dnodes = [''A'', ''B'', ''C''],
      dedges = [(''A'', ''B'', \<lparr>belief = Some 1,
                   statements = Some [\<lparr>internal = Some False\<rparr>, \<lparr>internal = Some True\<rparr>]\<rparr>),
                (''B'', ''C'', \<lparr>belief = None,
                   statements = Some [\<lparr>internal = Some False\<rparr>]\<rparr>)]\<rparr>"

definition external_graph :: "string digraph" where
  "external_graph =
     \<lparr>dnodes = [''A'', ''B''],
      dedges = [(''A'', ''B'', \<lparr>belief = Some 1,
                   statements = Some [\<lparr>internal = Some False\<rparr>]\<rparr>)]\<rparr>"

definition example_state :: "string module_state" where
  "example_state = module_init\<lparr>objects := [DiGraph internal_graph, DiGraph external_graph]\<rparr>"

section \<open>The codec: results\<close>

text \<open>
  C1. For all node identifiers \<open>a\<close>, \<open>b\<close> and every polarity \<open>p\<close> that is the integer
  0 or 1, \<^verbatim>\<open>path_sign_to_signed_nodes(a, b, p)\<close> returns a pair of signed nodes without
  logging, and \<^verbatim>\<open>signed_nodes_to_signed_edge\<close> applied to that pair returns exactly
  the triple \<open>(a, b, p)\<close>, again without logging.
\<close>

theorem signed_edge_round_trip:
  assumes "p = 0 \<or> p = 1"
  shows "\<exists>s t. path_sign_to_signed_nodes parse a b (PInt p) = Inr ((s, t), [])
           \<and> signed_nodes_to_signed_edge parse s t = Inr ((a, b, PInt p), [])"
  using assms
  by (auto simp: path_sign_to_signed_nodes_def signed_nodes_to_signed_edge_def)

theorem signed_edge_round_trip_witness:
  "\<exists>s t. path_sign_to_signed_nodes int_of_str (PStr ''A'') (PStr ''B'') (PInt 1) = Inr ((s, t), [])
     \<and> signed_nodes_to_signed_edge int_of_str s t = Inr ((PStr ''A'', PStr ''B'', PInt 1), [])"
  using signed_edge_round_trip [of 1 int_of_str "PStr ''A''" "PStr ''B''"] by simp

text \<open>
  C2. What the code returns at the two polarities: at 0 the pair
  \<open>((source, 0), (target, 0))\<close>, at 1 the pair \<open>((source, 1), (target, 0))\<close>. The second
  is not the pair \<open>((source, 0), (target, 1))\<close> of the claim and of the function's own
  comment (\<^verbatim>\<open>- path -> (a+, b-)\<close>): the source node comes out negative.
\<close>

theorem path_sign_to_signed_nodes_values:
  "path_sign_to_signed_nodes parse source target (PInt 0)
     = Inr (((source, PInt 0), (target, PInt 0)), [])
   \<and> path_sign_to_signed_nodes parse source target (PInt 1)
     = Inr (((source, PInt 1), (target, PInt 0)), [])
   \<and> path_sign_to_signed_nodes parse source target (PInt 1)
     \<noteq> Inr (((source, PInt 0), (target, PInt 1)), [])"
  by (simp add: path_sign_to_signed_nodes_def)

text \<open>
  C7, as stated, fails: \<^verbatim>\<open>None\<close> cannot be read as an integer, and both functions
  raise \<^verbatim>\<open>TypeError\<close> on it instead of returning a sentinel.
\<close>

theorem sentinel_counterexample:
  "path_sign_to_signed_nodes int_of_str (PStr ''A'') (PStr ''B'') PNone = Inl TypeError
   \<and> signed_nodes_to_signed_edge int_of_str (PStr ''A'', PInt 0) (PStr ''B'', PNone)
       = Inl TypeError"
  by (simp add: path_sign_to_signed_nodes_def signed_nodes_to_signed_edge_def)

text \<open>
  C7, amended. When \<^verbatim>\<open>int()\<close> raises \<^verbatim>\<open>ValueError\<close> on the sign (a string that
  is no integer literal, a NaN), \<^verbatim>\<open>path_sign_to_signed_nodes\<close> logs one warning and
  returns \<open>((None, None), (None, None))\<close>; when \<^verbatim>\<open>int()\<close> raises
  \<^verbatim>\<open>ValueError\<close> on the source polarity, or reads the source polarity and raises
  \<^verbatim>\<open>ValueError\<close> on the target polarity, \<^verbatim>\<open>signed_nodes_to_signed_edge\<close> logs one
  warning and returns \<open>(None, None, None)\<close>. Neither call raises. Any other exception of
  \<^verbatim>\<open>int()\<close> (\<^verbatim>\<open>TypeError\<close>, \<^verbatim>\<open>OverflowError\<close>) is not caught: the call raises
  it.
\<close>

theorem sentinel_on_value_error:
  "(py_int parse edge_sign = Inl ValueError \<longrightarrow>
      path_sign_to_signed_nodes parse source target edge_sign
        = Inr (((PNone, PNone), (PNone, PNone)), [InvalidSign edge_sign]))
   \<and> (py_int parse ss = Inl ValueError
        \<or> (\<exists>i. py_int parse ss = Inr i) \<and> py_int parse ts = Inl ValueError \<longrightarrow>
      signed_nodes_to_signed_edge parse (sn, ss) (tn, ts)
        = Inr ((PNone, PNone, PNone), [TranslateError (sn, ss) (tn, ts)]))
   \<and> (py_int parse edge_sign = Inl e \<and> e \<noteq> ValueError \<longrightarrow>
      path_sign_to_signed_nodes parse source target edge_sign = Inl e)
   \<and> (py_int parse ss = Inl e \<and> e \<noteq> ValueError
        \<or> (\<exists>i. py_int parse ss = Inr i) \<and> py_int parse ts = Inl e \<and> e \<noteq> ValueError \<longrightarrow>
      signed_nodes_to_signed_edge parse (sn, ss) (tn, ts) = Inl e)"
  by (cases e) (auto simp: path_sign_to_signed_nodes_def signed_nodes_to_signed_edge_def)

theorem sentinel_on_value_error_witness:
  "py_int int_of_str (PStr ''up'') = Inl ValueError
   \<and> path_sign_to_signed_nodes int_of_str (PStr ''A'') (PStr ''B'') (PStr ''up'')
       = Inr (((PNone, PNone), (PNone, PNone)), [InvalidSign (PStr ''up'')])
   \<and> py_int int_of_str (PStr ''1'') = Inr 1
   \<and> signed_nodes_to_signed_edge int_of_str (PStr ''A'', PStr ''1'') (PStr ''B'', PStr ''up'')
       = Inr ((PNone, PNone, PNone),
              [TranslateError (PStr ''A'', PStr ''1'') (PStr ''B'', PStr ''up'')])"
proof -
  have v: "py_int int_of_str (PStr ''up'') = Inl ValueError"
    by (simp add: int_of_str_def strip_def is_space_def digit_val_def)
  have i: "py_int int_of_str (PStr ''1'') = Inr 1"
    by (simp add: int_of_str_def strip_def is_space_def digit_val_def)
  from v i
    sentinel_on_value_error [where parse = int_of_str and edge_sign = "PStr ''up''"
      and source = "PStr ''A''" and target = "PStr ''B''" and ss = "PStr ''1''"
      and ts = "PStr ''up''" and sn = "PStr ''A''" and tn = "PStr ''B''" and e = TypeError]
  show ?thesis by simp
qed

section \<open>Sorted neighbours: results\<close>

lemma map_err_total:
  "\<forall>x\<in>set xs. \<exists>y. f x = Inr y \<Longrightarrow> map_err f xs = Inr (map (\<lambda>x. projr (f x)) xs)"
  by (induction xs) (auto split: sum.splits)

lemma sort_key_decorate:
  "sort_key snd (map (\<lambda>x. (x, k x)) xs) = map (\<lambda>x. (x, k x)) (sort_key k xs)"
proof (induction xs)
  case Nil then show ?case by simp
next
  case (Cons a xs)
  have ins: "insort_key snd (a, k a) (map (\<lambda>x. (x, k x)) ys) = map (\<lambda>x. (x, k x)) (insort_key k a ys)" for ys
    by (induction ys) auto
  show ?case using Cons by (simp add: ins)
qed

lemma py_sorted_reverse_total:
  assumes "\<forall>x\<in>set xs. \<exists>y. key x = Inr y"
  shows "py_sorted_reverse key xs = Inr (rev (sort_key (\<lambda>x. projr (key x)) (rev xs)))"
proof -
  have z: "zip xs (map k xs) = map (\<lambda>x. (x, k x)) xs" for k :: "'a \<Rightarrow> rat"
    by (induction xs) auto
  show ?thesis
    unfolding py_sorted_reverse_def
    by (simp add: map_err_total [OF assms] z rev_map sort_key_decorate o_def)
qed

lemma sorted_wrt_rev_sort_key:
  "sorted_wrt (\<lambda>a b. k b \<le> k a) (rev (sort_key k xs))"
proof -
  have "sorted (map k (sort_key k xs))" by simp
  then have "sorted_wrt (\<lambda>a b. k a \<le> k b) (sort_key k xs)" by (simp add: sorted_map)
  then show ?thesis by (simp add: sorted_wrt_rev)
qed

lemma find_edge:
  "distinct (map (\<lambda>(u, v, d). (u, v)) es) \<Longrightarrow> (u, v, d) \<in> set es \<Longrightarrow>
   find (\<lambda>(a, b, d). a = u \<and> b = v) es = Some (u, v, d)"
  by (induction es) (auto simp: rev_image_eqI)

lemma edge_belief_edge:
  "wf_digraph g \<Longrightarrow> (u, v, d) \<in> set (dedges g) \<Longrightarrow> edge_belief g u v = Inr (get_belief d)"
proof -
  assume "wf_digraph g" and e: "(u, v, d) \<in> set (dedges g)"
  then have "distinct (map (\<lambda>(u, v, d). (u, v)) (dedges g))" by (simp add: wf_digraph_def)
  from find_edge [OF this e] show ?thesis by (simp add: edge_belief_def)
qed

lemma py_sorted_reverse_props:
  assumes "\<forall>x\<in>set xs. \<exists>y. key x = Inr y"
  shows "\<exists>ys. py_sorted_reverse key xs = Inr ys \<and> mset ys = mset xs
           \<and> sorted_wrt (\<lambda>a b. projr (key b) \<le> projr (key a)) ys"
  using py_sorted_reverse_total [OF assms] sorted_wrt_rev_sort_key [of "\<lambda>x. projr (key x)" "rev xs"]
  by simp

lemma succ_keys:
  assumes "wf_digraph g"
  shows "\<forall>x\<in>set [v. (u, v, d) \<leftarrow> dedges g, u = node]. \<exists>y. edge_belief g node x = Inr y"
  using edge_belief_edge [OF assms] by auto

lemma pred_keys:
  assumes "wf_digraph g"
  shows "\<forall>x\<in>set [u. (u, v, d) \<leftarrow> dedges g, v = node]. \<exists>y. edge_belief g x node = Inr y"
  using edge_belief_edge [OF assms] by auto

lemma sorted_wrt_weaken:
  "sorted_wrt P xs \<Longrightarrow> (\<And>a b. a \<in> set xs \<Longrightarrow> b \<in> set xs \<Longrightarrow> P a b \<Longrightarrow> Q a b) \<Longrightarrow> sorted_wrt Q xs"
  by (rule sorted_wrt_mono_rel)

text \<open>
  C5. On a \<^verbatim>\<open>DiGraph\<close> and a node of it, without an allow-list,
  \<^verbatim>\<open>get_sorted_neighbors\<close> returns a list that holds exactly the successors of the node
  (the predecessors when \<open>reverse\<close> is set), each as often as the graph has it, and in
  which the belief of the connecting edge never increases from left to right, an edge
  without belief counting as belief 0.
\<close>

theorem sorted_neighbors_descending:
  assumes wf: "wf_digraph g" and n: "node \<in> set (dnodes g)"
  shows "\<exists>ys. get_sorted_neighbors ord iter g node reverse None = Inr ys
     \<and> mset ys = mset (if reverse then [u. (u, v, d) \<leftarrow> dedges g, v = node]
                       else [v. (u, v, d) \<leftarrow> dedges g, u = node])
     \<and> sorted_wrt (\<lambda>a b. \<forall>da db.
           (if reverse then (a, node, da) else (node, a, da)) \<in> set (dedges g)
           \<and> (if reverse then (b, node, db) else (node, b, db)) \<in> set (dedges g)
           \<longrightarrow> get_belief db \<le> get_belief da) ys"
proof (cases reverse)
  case True
  let ?xs = "[u. (u, v, d) \<leftarrow> dedges g, v = node]"
  from py_sorted_reverse_props [OF pred_keys [OF wf, of node]]
  obtain ys where ys: "py_sorted_reverse (\<lambda>n. edge_belief g n node) ?xs = Inr ys"
    "mset ys = mset ?xs"
    "sorted_wrt (\<lambda>a b. projr (edge_belief g b node) \<le> projr (edge_belief g a node)) ys"
    by blast
  have "sorted_wrt (\<lambda>a b. \<forall>da db. (a, node, da) \<in> set (dedges g) \<and> (b, node, db) \<in> set (dedges g)
           \<longrightarrow> get_belief db \<le> get_belief da) ys"
    using ys(3) by (rule sorted_wrt_weaken) (auto simp: edge_belief_edge [OF wf])
  with ys True n show ?thesis
    by (simp add: get_sorted_neighbors_def predecessors_def)
next
  case False
  let ?xs = "[v. (u, v, d) \<leftarrow> dedges g, u = node]"
  from py_sorted_reverse_props [OF succ_keys [OF wf, of node]]
  obtain ys where ys: "py_sorted_reverse (\<lambda>n. edge_belief g node n) ?xs = Inr ys"
    "mset ys = mset ?xs"
    "sorted_wrt (\<lambda>a b. projr (edge_belief g node b) \<le> projr (edge_belief g node a)) ys"
    by blast
  have "sorted_wrt (\<lambda>a b. \<forall>da db. (node, a, da) \<in> set (dedges g) \<and> (node, b, db) \<in> set (dedges g)
           \<longrightarrow> get_belief db \<le> get_belief da) ys"
    using ys(3) by (rule sorted_wrt_weaken) (auto simp: edge_belief_edge [OF wf])
  with ys False n show ?thesis
    by (simp add: get_sorted_neighbors_def successors_def)
qed

lemma sorted_preds:
  assumes wf: "wf_digraph g"
  shows "\<exists>ys. py_sorted_reverse (\<lambda>n. edge_belief g n node)
                 [u. (u, v, d) \<leftarrow> dedges g, v = node] = Inr ys
           \<and> mset ys = mset [u. (u, v, d) \<leftarrow> dedges g, v = node]
           \<and> sorted_wrt (\<lambda>a b. \<forall>da db.
                 (a, node, da) \<in> set (dedges g) \<and> (b, node, db) \<in> set (dedges g)
                 \<longrightarrow> get_belief db \<le> get_belief da) ys"
proof -
  let ?xs = "[u. (u, v, d) \<leftarrow> dedges g, v = node]"
  from py_sorted_reverse_props [OF pred_keys [OF wf, of node]]
  obtain ys where ys: "py_sorted_reverse (\<lambda>n. edge_belief g n node) ?xs = Inr ys"
    "mset ys = mset ?xs"
    "sorted_wrt (\<lambda>a b. projr (edge_belief g b node) \<le> projr (edge_belief g a node)) ys"
    by blast
  have "sorted_wrt (\<lambda>a b. \<forall>da db. (a, node, da) \<in> set (dedges g) \<and> (b, node, db) \<in> set (dedges g)
           \<longrightarrow> get_belief db \<le> get_belief da) ys"
    using ys(3) by (rule sorted_wrt_weaken) (auto simp: edge_belief_edge [OF wf])
  with ys(1,2) show ?thesis by blast
qed

lemma sorted_succs:
  assumes wf: "wf_digraph g"
  shows "\<exists>ys. py_sorted_reverse (\<lambda>n. edge_belief g node n)
                 [v. (u, v, d) \<leftarrow> dedges g, u = node] = Inr ys
           \<and> mset ys = mset [v. (u, v, d) \<leftarrow> dedges g, u = node]
           \<and> sorted_wrt (\<lambda>a b. \<forall>da db.
                 (node, a, da) \<in> set (dedges g) \<and> (node, b, db) \<in> set (dedges g)
                 \<longrightarrow> get_belief db \<le> get_belief da) ys"
proof -
  let ?xs = "[v. (u, v, d) \<leftarrow> dedges g, u = node]"
  from py_sorted_reverse_props [OF succ_keys [OF wf, of node]]
  obtain ys where ys: "py_sorted_reverse (\<lambda>n. edge_belief g node n) ?xs = Inr ys"
    "mset ys = mset ?xs"
    "sorted_wrt (\<lambda>a b. projr (edge_belief g node b) \<le> projr (edge_belief g node a)) ys"
    by blast
  have "sorted_wrt (\<lambda>a b. \<forall>da db. (node, a, da) \<in> set (dedges g) \<and> (node, b, db) \<in> set (dedges g)
           \<longrightarrow> get_belief db \<le> get_belief da) ys"
    using ys(3) by (rule sorted_wrt_weaken) (auto simp: edge_belief_edge [OF wf])
  with ys(1,2) show ?thesis by blast
qed

text \<open>
  C10. An allow-list that is supplied but empty gives the very result of a call without
  allow-list, for every graph, node and direction (also when the call raises). On a
  \<^verbatim>\<open>DiGraph\<close> and a node of it, that result is the list of all successors of the node
  (all predecessors when \<open>reverse\<close> is set), each as often as the graph has it, in
  descending order of belief; it is empty only when the node has no such neighbour.
\<close>

theorem empty_allow_list_is_no_allow_list:
  "get_sorted_neighbors ord iter g node reverse (Some [])
     = get_sorted_neighbors ord iter g node reverse None
   \<and> (wf_digraph g \<and> node \<in> set (dnodes g) \<longrightarrow>
        (\<exists>ys. get_sorted_neighbors ord iter g node reverse (Some []) = Inr ys
           \<and> mset ys = mset (if reverse then [u. (u, v, d) \<leftarrow> dedges g, v = node]
                             else [v. (u, v, d) \<leftarrow> dedges g, u = node])
           \<and> sorted_wrt (\<lambda>a b. \<forall>da db.
                 (if reverse then (a, node, da) else (node, a, da)) \<in> set (dedges g)
                 \<and> (if reverse then (b, node, db) else (node, b, db)) \<in> set (dedges g)
                 \<longrightarrow> get_belief db \<le> get_belief da) ys
           \<and> (ys = [] \<longrightarrow> (if reverse then [u. (u, v, d) \<leftarrow> dedges g, v = node]
                              else [v. (u, v, d) \<leftarrow> dedges g, u = node]) = [])))"
proof (intro conjI impI)
  show "get_sorted_neighbors ord iter g node reverse (Some [])
     = get_sorted_neighbors ord iter g node reverse None"
    by (simp add: get_sorted_neighbors_def)
next
  assume a: "wf_digraph g \<and> node \<in> set (dnodes g)"
  then have wf: "wf_digraph g" and n: "node \<in> set (dnodes g)" by simp_all
  show "\<exists>ys. get_sorted_neighbors ord iter g node reverse (Some []) = Inr ys
           \<and> mset ys = mset (if reverse then [u. (u, v, d) \<leftarrow> dedges g, v = node]
                             else [v. (u, v, d) \<leftarrow> dedges g, u = node])
           \<and> sorted_wrt (\<lambda>a b. \<forall>da db.
                 (if reverse then (a, node, da) else (node, a, da)) \<in> set (dedges g)
                 \<and> (if reverse then (b, node, db) else (node, b, db)) \<in> set (dedges g)
                 \<longrightarrow> get_belief db \<le> get_belief da) ys
           \<and> (ys = [] \<longrightarrow> (if reverse then [u. (u, v, d) \<leftarrow> dedges g, v = node]
                              else [v. (u, v, d) \<leftarrow> dedges g, u = node]) = [])"
  proof (cases reverse)
    case True
    from sorted_preds [OF wf, of node]
    obtain ys where ys: "py_sorted_reverse (\<lambda>n. edge_belief g n node)
                 [u. (u, v, d) \<leftarrow> dedges g, v = node] = Inr ys"
      "mset ys = mset [u. (u, v, d) \<leftarrow> dedges g, v = node]"
      "sorted_wrt (\<lambda>a b. \<forall>da db.
                 (a, node, da) \<in> set (dedges g) \<and> (b, node, db) \<in> set (dedges g)
                 \<longrightarrow> get_belief db \<le> get_belief da) ys"
      by blast
    from ys(2) have "ys = [] \<longrightarrow> [u. (u, v, d) \<leftarrow> dedges g, v = node] = []"
      by (metis mset_zero_iff)
    with ys True n show ?thesis
      by (simp add: get_sorted_neighbors_def predecessors_def)
  next
    case False
    from sorted_succs [OF wf, of node]
    obtain ys where ys: "py_sorted_reverse (\<lambda>n. edge_belief g node n)
                 [v. (u, v, d) \<leftarrow> dedges g, u = node] = Inr ys"
      "mset ys = mset [v. (u, v, d) \<leftarrow> dedges g, u = node]"
      "sorted_wrt (\<lambda>a b. \<forall>da db.
                 (node, a, da) \<in> set (dedges g) \<and> (node, b, db) \<in> set (dedges g)
                 \<longrightarrow> get_belief db \<le> get_belief da) ys"
      by blast
    from ys(2) have "ys = [] \<longrightarrow> [v. (u, v, d) \<leftarrow> dedges g, u = node] = []"
      by (metis mset_zero_iff)
    with ys False n show ?thesis
      by (simp add: get_sorted_neighbors_def successors_def)
  qed
qed

theorem empty_allow_list_is_no_allow_list_witness:
  "wf_digraph belief_graph \<and> ''N'' \<in> set (dnodes belief_graph)
   \<and> get_sorted_neighbors id str_iter belief_graph ''N'' False None
       = Inr [''X'', ''Y'', ''Z'']
   \<and> get_sorted_neighbors id str_iter belief_graph ''N'' False (Some [])
       = Inr [''X'', ''Y'', ''Z'']
   \<and> get_sorted_neighbors id str_iter belief_graph ''N'' False (Some []) \<noteq> Inr []"
proof -
  have wf: "wf_digraph belief_graph"
    by (simp add: wf_digraph_def belief_graph_def)
  have n: "''N'' \<in> set (dnodes belief_graph)"
    by (simp add: belief_graph_def)
  have none: "get_sorted_neighbors id str_iter belief_graph ''N'' False None
                = Inr [''X'', ''Y'', ''Z'']"
    by (simp add: get_sorted_neighbors_def successors_def py_sorted_reverse_def
        edge_belief_def get_belief_def belief_graph_def)
  note t = empty_allow_list_is_no_allow_list [of id str_iter belief_graph "''N''" False]
  from t have eq: "get_sorted_neighbors id str_iter belief_graph ''N'' False (Some [])
      = get_sorted_neighbors id str_iter belief_graph ''N'' False None"
    by (rule conjunct1)
  from t wf n obtain ys where "get_sorted_neighbors id str_iter belief_graph ''N'' False (Some [])
      = Inr ys" by blast
  with eq none wf n show ?thesis by simp
qed


lemma uniq_props: "set (uniq xs) = set xs" "distinct (uniq xs)"
  by (simp_all add: uniq_def)

lemma in_pairs_eq:
  "[(u, n). (u, v, d) \<leftarrow> es, v = n] = filter (\<lambda>e. snd e = n) (map (\<lambda>(u, v, d). (u, v)) es)"
  by (induction es) auto

lemma out_pairs_eq:
  "[(n, v). (u, v, d) \<leftarrow> es, u = n] = filter (\<lambda>e. fst e = n) (map (\<lambda>(u, v, d). (u, v)) es)"
  by (induction es) auto

lemma in_edges_node:
  "node \<in> set (dnodes g) \<Longrightarrow>
   in_edges iter g node = Inr (filter (\<lambda>e. snd e = node) (map (\<lambda>(u, v, d). (u, v)) (dedges g)))"
  by (simp add: in_edges_def nbunch_iter_def in_pairs_eq)

lemma out_edges_node:
  "node \<in> set (dnodes g) \<Longrightarrow>
   out_edges iter g node = Inr (filter (\<lambda>e. fst e = node) (map (\<lambda>(u, v, d). (u, v)) (dedges g)))"
  by (simp add: out_edges_def nbunch_iter_def out_pairs_eq)

lemma perm_props:
  assumes "mset ys = mset xs"
  shows "set ys = set xs" "distinct ys = distinct xs"
  using assms by (rule mset_eq_setD, rule mset_eq_imp_distinct_iff)

lemma singleton_list: "distinct ys \<Longrightarrow> set ys = {x} \<Longrightarrow> ys = [x]"
proof (cases ys)
  case Nil
  assume "set ys = {x}" with Nil show ?thesis by simp
next
  case (Cons a zs)
  assume d: "distinct ys" and s: "set ys = {x}"
  from s Cons have a: "a = x" by auto
  from s Cons have "set zs \<subseteq> {x}" by auto
  moreover from d Cons a have "x \<notin> set zs" by simp
  ultimately have "zs = []" by (cases zs) auto
  with a Cons show ?thesis by simp
qed


lemma pairs_set:
  "(u, v) \<in> (\<lambda>(u, v, d). (u, v)) ` set es \<longleftrightarrow> (\<exists>d. (u, v, d) \<in> set es)"
  by force

lemma candidates_props:
  assumes d: "distinct es" and perm: "\<forall>xs. mset (ord xs) = mset xs"
  shows "set (ord (filter (\<lambda>e. e \<in> set fs) (uniq es))) = set es \<inter> set fs"
    and "distinct (ord (filter (\<lambda>e. e \<in> set fs) (uniq es)))"
proof -
  let ?c = "filter (\<lambda>e. e \<in> set fs) (uniq es)"
  from perm have m: "mset (ord ?c) = mset ?c" by blast
  show "set (ord ?c) = set es \<inter> set fs"
    using perm_props(1) [OF m] by (auto simp: uniq_props)
  show "distinct (ord ?c)"
    using perm_props(2) [OF m] by (simp add: uniq_props)
qed

text \<open>
  C6, amended. With a \<^bold>\<open>non-empty\<close> allow-list, on a \<^verbatim>\<open>DiGraph\<close> and a node of
  it, \<^verbatim>\<open>get_sorted_neighbors\<close> returns, each once, exactly the endpoints of the edges
  that are both in-edges (reverse) or out-edges (forward) of the node and in the
  allow-list, in descending order of belief; when the allow-list holds only the edge
  \<open>(node, x)\<close> of the graph, the forward result is \<open>[x]\<close>. This holds for every order
  in which Python may iterate over the intersection set.
\<close>

theorem allowed_edges_restrict:
  assumes wf: "wf_digraph g" and n: "node \<in> set (dnodes g)" and ne: "fs \<noteq> []"
    and perm: "\<forall>xs. mset (ord xs) = mset xs"
  shows "\<exists>ys. get_sorted_neighbors ord iter g node reverse (Some fs) = Inr ys
     \<and> distinct ys
     \<and> set ys = (if reverse then {u. (u, node) \<in> set fs \<and> (\<exists>d. (u, node, d) \<in> set (dedges g))}
                  else {v. (node, v) \<in> set fs \<and> (\<exists>d. (node, v, d) \<in> set (dedges g))})
     \<and> sorted_wrt (\<lambda>a b. \<forall>da db.
           (if reverse then (a, node, da) else (node, a, da)) \<in> set (dedges g)
           \<and> (if reverse then (b, node, db) else (node, b, db)) \<in> set (dedges g)
           \<longrightarrow> get_belief db \<le> get_belief da) ys
     \<and> (\<forall>x. \<not> reverse \<and> set fs = {(node, x)} \<and> (\<exists>d. (node, x, d) \<in> set (dedges g))
           \<longrightarrow> ys = [x])"
proof -
  from ne obtain f fs' where fs: "fs = f # fs'" by (cases fs) auto
  let ?pairs = "map (\<lambda>(u, v, d). (u, v)) (dedges g)"
  from wf have dp: "distinct ?pairs" by (simp add: wf_digraph_def)
  show ?thesis
  proof (cases reverse)
    case True
    let ?es = "filter (\<lambda>e. snd e = node) ?pairs"
    let ?cs = "ord (filter (\<lambda>e. e \<in> set fs) (uniq ?es))"
    let ?ns = "map fst ?cs"
    from dp have de: "distinct ?es" by simp
    note cs = candidates_props [OF de perm, of fs]
    have set_cs: "set ?cs = {(u, v). v = node \<and> (u, v) \<in> set fs \<and> (\<exists>d. (u, v, d) \<in> set (dedges g))}"
      unfolding cs(1) by (auto simp: pairs_set)
    have set_ns: "set ?ns = {u. (u, node) \<in> set fs \<and> (\<exists>d. (u, node, d) \<in> set (dedges g))}"
      unfolding set_map set_cs by force
    have "inj_on fst (set ?cs)" unfolding set_cs by (auto simp: inj_on_def)
    with cs(2) have dist_ns: "distinct ?ns" by (simp add: distinct_map)
    have keys: "\<forall>x\<in>set ?ns. \<exists>y. edge_belief g x node = Inr y"
      unfolding set_ns using edge_belief_edge [OF wf] by blast
    from py_sorted_reverse_props [OF keys]
    obtain ys where ys: "py_sorted_reverse (\<lambda>n. edge_belief g n node) ?ns = Inr ys"
      "mset ys = mset ?ns"
      "sorted_wrt (\<lambda>a b. projr (edge_belief g b node) \<le> projr (edge_belief g a node)) ys"
      by blast
    have srt: "sorted_wrt (\<lambda>a b. \<forall>da db. (a, node, da) \<in> set (dedges g) \<and> (b, node, db) \<in> set (dedges g)
           \<longrightarrow> get_belief db \<le> get_belief da) ys"
      using ys(3) by (rule sorted_wrt_weaken) (auto simp: edge_belief_edge [OF wf])
    have res: "get_sorted_neighbors ord iter g node reverse (Some fs) = Inr ys"
      using True ys(1) by (simp add: get_sorted_neighbors_def fs in_edges_node [OF n])
    from perm_props [OF ys(2)] set_ns dist_ns have "set ys = {u. (u, node) \<in> set fs \<and> (\<exists>d. (u, node, d) \<in> set (dedges g))}"
      "distinct ys" by simp_all
    with res srt True show ?thesis by simp
  next
    case False
    let ?es = "filter (\<lambda>e. fst e = node) ?pairs"
    let ?cs = "ord (filter (\<lambda>e. e \<in> set fs) (uniq ?es))"
    let ?ns = "map snd ?cs"
    from dp have de: "distinct ?es" by simp
    note cs = candidates_props [OF de perm, of fs]
    have set_cs: "set ?cs = {(u, v). u = node \<and> (u, v) \<in> set fs \<and> (\<exists>d. (u, v, d) \<in> set (dedges g))}"
      unfolding cs(1) by (auto simp: pairs_set)
    have set_ns: "set ?ns = {v. (node, v) \<in> set fs \<and> (\<exists>d. (node, v, d) \<in> set (dedges g))}"
      unfolding set_map set_cs by force
    have "inj_on snd (set ?cs)" unfolding set_cs by (auto simp: inj_on_def)
    with cs(2) have dist_ns: "distinct ?ns" by (simp add: distinct_map)
    have keys: "\<forall>x\<in>set ?ns. \<exists>y. edge_belief g node x = Inr y"
      unfolding set_ns using edge_belief_edge [OF wf] by blast
    from py_sorted_reverse_props [OF keys]
    obtain ys where ys: "py_sorted_reverse (\<lambda>n. edge_belief g node n) ?ns = Inr ys"
      "mset ys = mset ?ns"
      "sorted_wrt (\<lambda>a b. projr (edge_belief g node b) \<le> projr (edge_belief g node a)) ys"
      by blast
    have srt: "sorted_wrt (\<lambda>a b. \<forall>da db. (node, a, da) \<in> set (dedges g) \<and> (node, b, db) \<in> set (dedges g)
           \<longrightarrow> get_belief db \<le> get_belief da) ys"
      using ys(3) by (rule sorted_wrt_weaken) (auto simp: edge_belief_edge [OF wf])
    have res: "get_sorted_neighbors ord iter g node reverse (Some fs) = Inr ys"
      using False ys(1) by (simp add: get_sorted_neighbors_def fs out_edges_node [OF n])
    from perm_props [OF ys(2)] set_ns dist_ns
    have sy: "set ys = {v. (node, v) \<in> set fs \<and> (\<exists>d. (node, v, d) \<in> set (dedges g))}"
      and dy: "distinct ys" by simp_all
    have one: "ys = [x]" if "set fs = {(node, x)}" "\<exists>d. (node, x, d) \<in> set (dedges g)" for x
    proof -
      from that sy have "set ys = {x}" by auto
      with dy show ?thesis by (rule singleton_list)
    qed
    from res srt sy dy one False show ?thesis by simp
  qed
qed

theorem sorted_neighbors_descending_witness:
  "wf_digraph belief_graph \<and> ''N'' \<in> set (dnodes belief_graph)
   \<and> get_sorted_neighbors id str_iter belief_graph ''N'' False None
       = Inr [''X'', ''Y'', ''Z'']"
proof -
  have wf: "wf_digraph belief_graph"
    by (simp add: wf_digraph_def belief_graph_def)
  have n: "''N'' \<in> set (dnodes belief_graph)"
    by (simp add: belief_graph_def)
  from sorted_neighbors_descending [OF wf n, of id str_iter False]
  obtain ys where ys: "get_sorted_neighbors id str_iter belief_graph ''N'' False None = Inr ys"
    by blast
  have "get_sorted_neighbors id str_iter belief_graph ''N'' False None
          = Inr [''X'', ''Y'', ''Z'']"
    by (simp add: get_sorted_neighbors_def successors_def py_sorted_reverse_def
        edge_belief_def get_belief_def belief_graph_def)
  with wf n ys show ?thesis by simp
qed

text \<open>
  C6, as stated, fails for an allow-list that is supplied but empty: no edge is allowed,
  and the call returns all three successors of \<open>N\<close>.
\<close>

theorem allowed_edges_counterexample:
  "get_sorted_neighbors id str_iter belief_graph ''N'' False (Some [])
     = Inr [''X'', ''Y'', ''Z'']"
  by (simp add: get_sorted_neighbors_def successors_def py_sorted_reverse_def
      edge_belief_def get_belief_def belief_graph_def)

theorem allowed_edges_restrict_witness:
  "wf_digraph belief_graph \<and> ''N'' \<in> set (dnodes belief_graph)
   \<and> get_sorted_neighbors id str_iter belief_graph ''N'' False (Some [(''N'', ''Y'')])
       = Inr [''Y'']"
proof -
  have wf: "wf_digraph belief_graph"
    by (simp add: wf_digraph_def belief_graph_def)
  have n: "''N'' \<in> set (dnodes belief_graph)"
    by (simp add: belief_graph_def)
  have ne: "[(''N'', ''Y'')] \<noteq> ([] :: (string \<times> string) list)" by simp
  have perm: "\<forall>xs :: (string \<times> string) list. mset (id xs) = mset xs" by simp
  from allowed_edges_restrict [OF wf n ne perm, of str_iter False]
  obtain ys where res: "get_sorted_neighbors id str_iter belief_graph ''N'' False
        (Some [(''N'', ''Y'')]) = Inr ys"
    and one: "\<forall>x. \<not> False \<and> set [(''N'', ''Y'')] = {(''N'', x)}
        \<and> (\<exists>d. (''N'', x, d) \<in> set (dedges belief_graph)) \<longrightarrow> ys = [x]"
    by blast
  have "\<exists>d. (''N'', ''Y'', d) \<in> set (dedges belief_graph)"
    by (simp add: belief_graph_def)
  with one have "ys = [''Y'']" by simp
  with res wf n show ?thesis by simp
qed

section \<open>The registry and subgraphs: results\<close>

lemma keep_edges_total:
  "\<forall>e\<in>set es. \<exists>b. ok e = Inr b \<Longrightarrow> keep_edges ok es = Inr (filter (\<lambda>e. ok e = Inr True) es)"
  by (induction es) auto

lemma keep_edges_fail:
  "es \<noteq> [] \<Longrightarrow> \<forall>e\<in>set es. ok e = Inl x \<Longrightarrow> keep_edges ok es = Inl x"
  by (cases es) auto

lemma group_mset:
  "distinct vs \<Longrightarrow>
   mset (concat (map (\<lambda>v. filter (\<lambda>e. h e = v) xs) vs)) = filter_mset (\<lambda>e. h e \<in> set vs) (mset xs)"
proof (induction vs)
  case Nil
  then show ?case by simp
next
  case (Cons a vs)
  then have "a \<notin> set vs" "distinct vs" by simp_all
  with Cons.IH show ?case
    by (auto simp: multiset_eq_iff)
qed

lemma concat_mset_cong:
  "(\<And>u. mset (F u) = mset (F' u)) \<Longrightarrow> mset (concat (map F ns)) = mset (concat (map F' ns))"
  by (induction ns) auto

lemma mset_adj_order:
  assumes "distinct ns" "\<forall>e\<in>set es. fst e \<in> set ns"
  shows "mset (adj_order ns es) = mset es"
proof -
  have "mset (adj_order ns es) = filter_mset (\<lambda>e. fst e \<in> set ns) (mset es)"
    unfolding adj_order_def using assms(1) by (rule group_mset)
  also have "\<dots> = mset es" using assms(2) by (simp add: filter_mset_eq_conv)
  finally show ?thesis .
qed

lemma mset_madj_order:
  assumes "distinct ns" "\<forall>e\<in>set es. fst e \<in> set ns"
  shows "mset (madj_order ns es) = mset es"
proof -
  have inner: "mset (let out = filter (\<lambda>e. fst e = u) es in
                    concat (map (\<lambda>v. filter (\<lambda>e. fst (snd e) = v) out)
                                (uniq (map (\<lambda>e. fst (snd e)) out))))
               = mset (filter (\<lambda>e. fst e = u) es)" for u
  proof -
    let ?out = "filter (\<lambda>e. fst e = u) es"
    have "mset (concat (map (\<lambda>v. filter (\<lambda>e. fst (snd e) = v) ?out) (uniq (map (\<lambda>e. fst (snd e)) ?out))))
            = filter_mset (\<lambda>e. fst (snd e) \<in> set (uniq (map (\<lambda>e. fst (snd e)) ?out))) (mset ?out)"
      by (rule group_mset) (rule uniq_props)
    also have "\<dots> = mset ?out"
      by (simp add: filter_mset_eq_conv uniq_props)
    finally show ?thesis by (simp add: Let_def)
  qed
  have "mset (madj_order ns es) = mset (adj_order ns es)"
    unfolding madj_order_def adj_order_def by (rule concat_mset_cong) (rule inner)
  with mset_adj_order [OF assms] show ?thesis by simp
qed

lemma stmts_loop_total:
  "\<forall>s\<in>set l. internal s \<noteq> None \<Longrightarrow> stmts_loop l = Inr (\<exists>s\<in>set l. internal s = Some True)"
  by (induction l) (auto split: option.splits)

lemma keydict_lookup:
  "distinct (map (\<lambda>(u, v, k, d). (u, v, k)) es) \<Longrightarrow> (u, v, k, d) \<in> set es \<Longrightarrow>
   map_of [(k, d). (a, b, k, d) \<leftarrow> es, a = u \<and> b = v] k = Some d"
  by (induction es) (auto simp: rev_image_eqI)


text \<open>
  C8. Let \<^verbatim>\<open>G\<close> refer to a graph, and take an edge of it as the view offers it to the
  predicate (with no further argument in a \<^verbatim>\<open>DiGraph\<close>, with its key in a
  \<^verbatim>\<open>MultiDiGraph\<close>), whose \<^verbatim>\<open>statements\<close> list exists and whose statements all
  carry the key \<^verbatim>\<open>internal\<close>. Then \<^verbatim>\<open>filter_to_internal_edges\<close> returns, and it
  returns true exactly when some statement of the edge has \<^verbatim>\<open>internal\<close> set; so it
  returns false when none has.
\<close>

theorem internal_edge_filter:
  assumes g: "deref objs Gref = Some g" and wf: "wf_graph g"
    and e: "(u, v, args, d) \<in> set (edge_calls g)"
    and st: "statements d = Some l"
    and keys: "\<forall>s\<in>set l. internal s \<noteq> None"
  shows "filter_to_internal_edges objs Gref u v args = Inr (\<exists>s\<in>set l. internal s = Some True)"
proof (cases g)
  case (DiGraph dg)
  with e have a: "args = []" and m: "(u, v, d) \<in> set (dedges dg)"
    by (auto simp: edge_calls_def)
  from wf DiGraph have "distinct (map (\<lambda>(u, v, d). (u, v)) (dedges dg))"
    by (simp add: wf_digraph_def)
  from find_edge [OF this m] have "graph_getitem g u v = Inr (AttrDict d)"
    by (simp add: graph_getitem_def DiGraph)
  with g a st stmts_loop_total [OF keys] show ?thesis
    by (simp add: filter_to_internal_edges_def scan_edge_def)
next
  case (MultiDiGraph mg)
  with e obtain k where a: "args = [k]" and m: "(u, v, k, d) \<in> set (medges mg)"
    by (auto simp: edge_calls_def)
  let ?kds = "[(k, d). (a, b, k, d) \<leftarrow> medges mg, a = u \<and> b = v]"
  from wf MultiDiGraph have "distinct (map (\<lambda>(u, v, k, d). (u, v, k)) (medges mg))"
    by (simp add: wf_multidigraph_def)
  from keydict_lookup [OF this m] have look: "map_of ?kds k = Some d" .
  have "?kds \<noteq> []"
  proof
    assume "?kds = []"
    then have "map_of ?kds k = None" by (simp only: map_of.simps)
    with look show False by simp
  qed
  then have "graph_getitem g u v = Inr (KeyDict ?kds)"
    by (simp add: graph_getitem_def MultiDiGraph split: list.splits)
  with g a st look stmts_loop_total [OF keys] show ?thesis
    by (simp add: filter_to_internal_edges_def scan_edge_def getitem_key_def)
qed

lemma deref_append:
  "a < length objs \<Longrightarrow> deref (objs @ [x]) (Some a) = deref objs (Some a)"
  by (simp add: deref_def nth_append)

lemma get_subgraph_G: "G (snd (get_subgraph g name st)) = Some g"
  by (simp add: get_subgraph_def Let_def split: option.splits sum.splits)

lemma get_subgraph_deref:
  assumes "g < length (objects st)"
  shows "deref (objects (snd (get_subgraph g name st))) (Some g) = Some (objects st ! g)"
  using assms
  by (simp add: get_subgraph_def Let_def deref_def nth_append split: option.splits sum.splits)

lemma get_subgraph_old_objects:
  "take (length (objects st)) (objects (snd (get_subgraph g name st))) = objects st"
  by (simp add: get_subgraph_def Let_def split: option.splits sum.splits)

lemma filter_reads_G:
  "deref objs Gref = deref objs' Gref' \<Longrightarrow>
   filter_to_internal_edges objs Gref u v args = filter_to_internal_edges objs' Gref' u v args"
  by (simp add: filter_to_internal_edges_def)


lemma distinct_proj_perm:
  assumes "mset xs = mset ys" "distinct (map p ys)"
  shows "distinct (map p (filter P xs))"
proof -
  from assms(1) have "mset (map p xs) = mset (map p ys)" by simp
  from mset_eq_imp_distinct_iff [OF this] assms(2) have "distinct (map p xs)" by simp
  then show ?thesis by (rule distinct_map_filter)
qed

lemma subgraph_copy_digraph:
  assumes wf: "wf_digraph dg"
    and tot: "\<forall>(u, v, d)\<in>set (dedges dg). \<exists>b. f u v [] = Inr b"
  shows "\<exists>es. subgraph_copy (Some f) (DiGraph dg) = Inr (DiGraph \<lparr>dnodes = dnodes dg, dedges = es\<rparr>)
           \<and> set es = {(u, v, d). (u, v, d) \<in> set (dedges dg) \<and> f u v [] = Inr True}
           \<and> wf_digraph \<lparr>dnodes = dnodes dg, dedges = es\<rparr>"
proof -
  let ?ok = "\<lambda>(u, v, d). call_filter (Some f) u v []"
  let ?es = "adj_order (dnodes dg) (dedges dg)"
  from wf have m: "mset ?es = mset (dedges dg)"
    by (intro mset_adj_order) (auto simp: wf_digraph_def)
  then have se: "set ?es = set (dedges dg)" by (rule mset_eq_setD)
  with tot have "\<forall>e\<in>set ?es. \<exists>b. ?ok e = Inr b"
    by (auto simp: call_filter_def)
  from keep_edges_total [OF this]
  have k: "keep_edges ?ok ?es = Inr (filter (\<lambda>e. ?ok e = Inr True) ?es)" .
  let ?new = "filter (\<lambda>e. ?ok e = Inr True) ?es"
  have c: "subgraph_copy (Some f) (DiGraph dg) = Inr (DiGraph \<lparr>dnodes = dnodes dg, dedges = ?new\<rparr>)"
    by (simp add: subgraph_copy_def k)
  have s: "set ?new = {(u, v, d). (u, v, d) \<in> set (dedges dg) \<and> f u v [] = Inr True}"
    using se by (auto simp: call_filter_def)
  from wf have "distinct (map (\<lambda>(u, v, d). (u, v)) (dedges dg))" by (simp add: wf_digraph_def)
  from distinct_proj_perm [OF m this]
  have d: "distinct (map (\<lambda>(u, v, d). (u, v)) ?new)" .
  from wf s d have w: "wf_digraph \<lparr>dnodes = dnodes dg, dedges = ?new\<rparr>"
    unfolding wf_digraph_def by (simp only: digraph.simps) blast
  from c s w show ?thesis by blast
qed

lemma subgraph_copy_multidigraph:
  assumes wf: "wf_multidigraph mg"
    and tot: "\<forall>(u, v, k, d)\<in>set (medges mg). \<exists>b. f u v [k] = Inr b"
  shows "\<exists>es. subgraph_copy (Some f) (MultiDiGraph mg)
             = Inr (MultiDiGraph \<lparr>mnodes = mnodes mg, medges = es\<rparr>)
           \<and> set es = {(u, v, k, d). (u, v, k, d) \<in> set (medges mg) \<and> f u v [k] = Inr True}
           \<and> wf_multidigraph \<lparr>mnodes = mnodes mg, medges = es\<rparr>"
proof -
  let ?ok = "\<lambda>(u, v, k, d). call_filter (Some f) u v [k]"
  let ?es = "madj_order (mnodes mg) (medges mg)"
  from wf have m: "mset ?es = mset (medges mg)"
    by (intro mset_madj_order) (auto simp: wf_multidigraph_def)
  then have se: "set ?es = set (medges mg)" by (rule mset_eq_setD)
  with tot have "\<forall>e\<in>set ?es. \<exists>b. ?ok e = Inr b"
    by (auto simp: call_filter_def)
  from keep_edges_total [OF this]
  have k: "keep_edges ?ok ?es = Inr (filter (\<lambda>e. ?ok e = Inr True) ?es)" .
  let ?new = "filter (\<lambda>e. ?ok e = Inr True) ?es"
  have c: "subgraph_copy (Some f) (MultiDiGraph mg)
             = Inr (MultiDiGraph \<lparr>mnodes = mnodes mg, medges = ?new\<rparr>)"
    by (simp add: subgraph_copy_def k)
  have s: "set ?new = {(u, v, k, d). (u, v, k, d) \<in> set (medges mg) \<and> f u v [k] = Inr True}"
    using se by (auto simp: call_filter_def)
  from wf have "distinct (map (\<lambda>(u, v, k, d). (u, v, k)) (medges mg))"
    by (simp add: wf_multidigraph_def)
  from distinct_proj_perm [OF m this]
  have d: "distinct (map (\<lambda>(u, v, k, d). (u, v, k)) ?new)" .
  from wf s d have w: "wf_multidigraph \<lparr>mnodes = mnodes mg, medges = ?new\<rparr>"
    unfolding wf_multidigraph_def by (simp only: multidigraph.simps) blast
  from c s w show ?thesis by blast
qed

lemma subgraph_copy_total:
  assumes wf: "wf_graph gr"
    and tot: "\<forall>(u, v, args, d)\<in>set (edge_calls gr). \<exists>b. f u v args = Inr b"
  shows "\<exists>new_g. subgraph_copy (Some f) gr = Inr new_g
           \<and> graph_nodes new_g = graph_nodes gr
           \<and> set (edge_calls new_g)
               = {(u, v, args, d). (u, v, args, d) \<in> set (edge_calls gr) \<and> f u v args = Inr True}
           \<and> wf_graph new_g"
proof (cases gr)
  case (DiGraph dg)
  from tot DiGraph have t: "\<forall>(u, v, d)\<in>set (dedges dg). \<exists>b. f u v [] = Inr b"
    by (force simp: edge_calls_def)
  from wf DiGraph have wfd: "wf_digraph dg" by simp
  from subgraph_copy_digraph [of dg f, OF wfd t]
  obtain es where es: "subgraph_copy (Some f) (DiGraph dg) = Inr (DiGraph \<lparr>dnodes = dnodes dg, dedges = es\<rparr>)"
    "set es = {(u, v, d). (u, v, d) \<in> set (dedges dg) \<and> f u v [] = Inr True}"
    "wf_digraph \<lparr>dnodes = dnodes dg, dedges = es\<rparr>"
    by auto
  have "set (edge_calls (DiGraph \<lparr>dnodes = dnodes dg, dedges = es\<rparr>))
          = {(u, v, args, d). (u, v, args, d) \<in> set (edge_calls gr) \<and> f u v args = Inr True}"
    unfolding DiGraph edge_calls_def using es(2) by (auto simp: image_iff) force+
  with es(1,3) DiGraph show ?thesis by (simp add: graph_nodes_def)
next
  case (MultiDiGraph mg)
  from tot MultiDiGraph have t: "\<forall>(u, v, k, d)\<in>set (medges mg). \<exists>b. f u v [k] = Inr b"
    by (force simp: edge_calls_def)
  from wf MultiDiGraph have wfd: "wf_multidigraph mg" by simp
  from subgraph_copy_multidigraph [of mg f, OF wfd t]
  obtain es where es: "subgraph_copy (Some f) (MultiDiGraph mg)
        = Inr (MultiDiGraph \<lparr>mnodes = mnodes mg, medges = es\<rparr>)"
    "set es = {(u, v, k, d). (u, v, k, d) \<in> set (medges mg) \<and> f u v [k] = Inr True}"
    "wf_multidigraph \<lparr>mnodes = mnodes mg, medges = es\<rparr>"
    by auto
  have "set (edge_calls (MultiDiGraph \<lparr>mnodes = mnodes mg, medges = es\<rparr>))
          = {(u, v, args, d). (u, v, args, d) \<in> set (edge_calls gr) \<and> f u v args = Inr True}"
    unfolding MultiDiGraph edge_calls_def using es(2) by (auto simp: image_iff) force+
  with es(1,3) MultiDiGraph show ?thesis by (simp add: graph_nodes_def)
qed


text \<open>
  C3. For a graph \<open>g\<close> in the store and a registered predicate name,
  \<^verbatim>\<open>get_subgraph\<close> leaves every object that was in the store as it was, \<open>g\<close> included,
  whether it returns or raises. When the predicate returns a truth value on every edge of
  \<open>g\<close>, the call returns a reference to a new object (the next free index of the store),
  changes nothing but the global \<^verbatim>\<open>G\<close> and the new object, and the new graph has the
  nodes of \<open>g\<close> and exactly those edges of \<open>g\<close>, attributes included, on which the
  predicate returns true.
\<close>

theorem get_subgraph_frame:
  assumes ref: "g < length (objects st)" and wf: "wf_graph (objects st ! g)"
    and reg: "edge_filter_functions st name = Some f"
  shows "take (length (objects st)) (objects (snd (get_subgraph g name st))) = objects st
     \<and> ((\<forall>(u, v, args, d)\<in>set (edge_calls (objects st ! g)).
            \<exists>b. f (objects st) (Some g) u v args = Inr b) \<longrightarrow>
        (\<exists>new_g. get_subgraph g name st
             = (Inr (length (objects st)), st\<lparr>G := Some g, objects := objects st @ [new_g]\<rparr>)
           \<and> graph_nodes new_g = graph_nodes (objects st ! g)
           \<and> set (edge_calls new_g)
               = {(u, v, args, d). (u, v, args, d) \<in> set (edge_calls (objects st ! g))
                    \<and> f (objects st) (Some g) u v args = Inr True}
           \<and> wf_graph new_g))"
proof (intro conjI impI)
  show "take (length (objects st)) (objects (snd (get_subgraph g name st))) = objects st"
    by (rule get_subgraph_old_objects)
next
  assume tot: "\<forall>(u, v, args, d)\<in>set (edge_calls (objects st ! g)).
            \<exists>b. f (objects st) (Some g) u v args = Inr b"
  from subgraph_copy_total [of "objects st ! g" "f (objects st) (Some g)", OF wf tot]
  obtain new_g where n: "subgraph_copy (Some (f (objects st) (Some g))) (objects st ! g) = Inr new_g"
    "graph_nodes new_g = graph_nodes (objects st ! g)"
    "set (edge_calls new_g)
       = {(u, v, args, d). (u, v, args, d) \<in> set (edge_calls (objects st ! g))
            \<and> f (objects st) (Some g) u v args = Inr True}"
    "wf_graph new_g"
    by blast
  from ref reg n(1) have "get_subgraph g name st
      = (Inr (length (objects st)), st\<lparr>G := Some g, objects := objects st @ [new_g]\<rparr>)"
    by (simp add: get_subgraph_def Let_def deref_def)
  with n(2,3,4) show "\<exists>new_g. get_subgraph g name st
             = (Inr (length (objects st)), st\<lparr>G := Some g, objects := objects st @ [new_g]\<rparr>)
           \<and> graph_nodes new_g = graph_nodes (objects st ! g)
           \<and> set (edge_calls new_g)
               = {(u, v, args, d). (u, v, args, d) \<in> set (edge_calls (objects st ! g))
                    \<and> f (objects st) (Some g) u v args = Inr True}
           \<and> wf_graph new_g"
    by blast
qed

lemma adj_order_Nil: "adj_order ns [] = []"
  by (induction ns) (simp_all add: adj_order_def)

lemma madj_order_Nil: "madj_order ns [] = []"
  by (induction ns) (simp_all add: madj_order_def uniq_def)

lemma subgraph_copy_no_edges:
  assumes "edge_calls gr = []"
  shows "\<exists>new_g. subgraph_copy fe gr = Inr new_g \<and> graph_nodes new_g = graph_nodes gr
           \<and> edge_calls new_g = []"
  using assms
  by (cases gr) (simp_all add: subgraph_copy_def edge_calls_def graph_nodes_def
      adj_order_Nil madj_order_Nil)

lemma subgraph_copy_None:
  assumes wf: "wf_graph gr" and ne: "edge_calls gr \<noteq> []"
  shows "subgraph_copy None gr = Inl TypeError"
proof (cases gr)
  case (DiGraph dg)
  from wf DiGraph have "mset (adj_order (dnodes dg) (dedges dg)) = mset (dedges dg)"
    by (intro mset_adj_order) (auto simp: wf_digraph_def)
  moreover from ne DiGraph have "dedges dg \<noteq> []" by (simp add: edge_calls_def)
  ultimately have "adj_order (dnodes dg) (dedges dg) \<noteq> []" by auto
  then have "keep_edges (\<lambda>(u, v, d). call_filter None u v []) (adj_order (dnodes dg) (dedges dg))
               = Inl TypeError"
    by (rule keep_edges_fail) (auto simp: call_filter_def)
  with DiGraph show ?thesis by (simp add: subgraph_copy_def)
next
  case (MultiDiGraph mg)
  from wf MultiDiGraph have "mset (madj_order (mnodes mg) (medges mg)) = mset (medges mg)"
    by (intro mset_madj_order) (auto simp: wf_multidigraph_def)
  moreover from ne MultiDiGraph have "medges mg \<noteq> []" by (simp add: edge_calls_def)
  ultimately have "madj_order (mnodes mg) (medges mg) \<noteq> []" by auto
  then have "keep_edges (\<lambda>(u, v, k, d). call_filter None u v [k]) (madj_order (mnodes mg) (medges mg))
               = Inl TypeError"
    by (rule keep_edges_fail) (auto simp: call_filter_def)
  with MultiDiGraph show ?thesis by (simp add: subgraph_copy_def)
qed

text \<open>
  C4, amended. With a filter name that is not registered, \<^verbatim>\<open>get_subgraph\<close> raises
  \<^verbatim>\<open>TypeError\<close> on every graph that has an edge (the missing predicate \<^verbatim>\<open>None\<close>
  is called on the first edge); on a graph without edges it returns a new graph with the
  same nodes and no edges. In both cases \<^verbatim>\<open>G\<close> is rebound and the store is otherwise
  as before.
\<close>

theorem unregistered_filter:
  assumes ref: "g < length (objects st)" and wf: "wf_graph (objects st ! g)"
    and unreg: "edge_filter_functions st name = None"
  shows "(edge_calls (objects st ! g) \<noteq> [] \<longrightarrow>
            get_subgraph g name st = (Inl TypeError, st\<lparr>G := Some g\<rparr>))
     \<and> (edge_calls (objects st ! g) = [] \<longrightarrow>
          (\<exists>new_g. get_subgraph g name st
               = (Inr (length (objects st)), st\<lparr>G := Some g, objects := objects st @ [new_g]\<rparr>)
             \<and> graph_nodes new_g = graph_nodes (objects st ! g)
             \<and> edge_calls new_g = []))"
proof (intro conjI impI)
  assume "edge_calls (objects st ! g) \<noteq> []"
  from subgraph_copy_None [OF wf this] ref unreg
  show "get_subgraph g name st = (Inl TypeError, st\<lparr>G := Some g\<rparr>)"
    by (simp add: get_subgraph_def Let_def deref_def)
next
  assume "edge_calls (objects st ! g) = []"
  from subgraph_copy_no_edges [OF this, of None]
  obtain new_g where n: "subgraph_copy None (objects st ! g) = Inr new_g"
    "graph_nodes new_g = graph_nodes (objects st ! g)" "edge_calls new_g = []"
    by blast
  from ref unreg n(1) have "get_subgraph g name st
      = (Inr (length (objects st)), st\<lparr>G := Some g, objects := objects st @ [new_g]\<rparr>)"
    by (simp add: get_subgraph_def Let_def deref_def)
  with n(2,3) show "\<exists>new_g. get_subgraph g name st
               = (Inr (length (objects st)), st\<lparr>G := Some g, objects := objects st @ [new_g]\<rparr>)
             \<and> graph_nodes new_g = graph_nodes (objects st ! g)
             \<and> edge_calls new_g = []"
    by blast
qed

lemma example_registry:
  "edge_filter_functions example_state ''filter_to_internal_edges'' = Some filter_to_internal_edges"
  "edge_filter_functions example_state ''no_such_filter'' = None"
  by (simp_all add: example_state_def module_init_def register_edge_filter_def)

lemma example_objects:
  "objects example_state = [DiGraph internal_graph, DiGraph external_graph]"
  by (simp add: example_state_def module_init_def register_edge_filter_def)

lemma example_wf:
  "wf_digraph internal_graph" "wf_digraph external_graph"
  by (simp_all add: wf_digraph_def internal_graph_def external_graph_def)

lemma example_filter_values:
  "filter_to_internal_edges [DiGraph internal_graph, DiGraph external_graph] (Some 0)
     ''A'' ''B'' [] = Inr True"
  "filter_to_internal_edges [DiGraph internal_graph, DiGraph external_graph] (Some 0)
     ''B'' ''C'' [] = Inr False"
  "filter_to_internal_edges [DiGraph internal_graph, DiGraph external_graph] (Some 1)
     ''A'' ''B'' [] = Inr False"
  "filter_to_internal_edges [DiGraph internal_graph, DiGraph external_graph] (Some (Suc 0))
     ''A'' ''B'' [] = Inr False"
  by (simp_all add: filter_to_internal_edges_def deref_def graph_getitem_def scan_edge_def
      internal_graph_def external_graph_def)

lemma example_subgraph:
  "fst (get_subgraph 0 ''filter_to_internal_edges'' example_state) = Inr 2"
  "objects (snd (get_subgraph 0 ''filter_to_internal_edges'' example_state))
     = [DiGraph internal_graph, DiGraph external_graph,
        DiGraph \<lparr>dnodes = [''A'', ''B'', ''C''],
                 dedges = [(''A'', ''B'', \<lparr>belief = Some 1,
                   statements = Some [\<lparr>internal = Some False\<rparr>, \<lparr>internal = Some True\<rparr>]\<rparr>)]\<rparr>]"
proof -
  have c: "subgraph_copy
      (Some (filter_to_internal_edges [DiGraph internal_graph, DiGraph external_graph] (Some 0)))
      (DiGraph internal_graph)
    = Inr (DiGraph \<lparr>dnodes = [''A'', ''B'', ''C''],
                 dedges = [(''A'', ''B'', \<lparr>belief = Some 1,
                   statements = Some [\<lparr>internal = Some False\<rparr>, \<lparr>internal = Some True\<rparr>]\<rparr>)]\<rparr>)"
  proof -
    have es: "adj_order [''A'', ''B'', ''C''] (dedges internal_graph)
        = [(''A'', ''B'', \<lparr>belief = Some 1,
              statements = Some [\<lparr>internal = Some False\<rparr>, \<lparr>internal = Some True\<rparr>]\<rparr>),
           (''B'', ''C'', \<lparr>belief = None, statements = Some [\<lparr>internal = Some False\<rparr>]\<rparr>)]"
      by (simp add: adj_order_def internal_graph_def)
    have ns: "dnodes internal_graph = [''A'', ''B'', ''C'']"
      by (simp add: internal_graph_def)
    show ?thesis
      by (simp add: subgraph_copy_def es ns call_filter_def example_filter_values)
  qed
  show "fst (get_subgraph 0 ''filter_to_internal_edges'' example_state) = Inr 2"
    by (simp add: get_subgraph_def Let_def deref_def example_registry example_objects c)
  show "objects (snd (get_subgraph 0 ''filter_to_internal_edges'' example_state))
     = [DiGraph internal_graph, DiGraph external_graph,
        DiGraph \<lparr>dnodes = [''A'', ''B'', ''C''],
                 dedges = [(''A'', ''B'', \<lparr>belief = Some 1,
                   statements = Some [\<lparr>internal = Some False\<rparr>, \<lparr>internal = Some True\<rparr>]\<rparr>)]\<rparr>]"
    by (simp add: get_subgraph_def Let_def deref_def example_registry example_objects c)
qed

lemma filter_after_get_subgraph:
  assumes a: "g < length (objects st)"
  shows "filter_to_internal_edges (objects (snd (get_subgraph g name st)))
            (G (snd (get_subgraph g name st))) u v args
          = filter_to_internal_edges (objects st) (Some g) u v args"
proof -
  have "deref (objects (snd (get_subgraph g name st))) (G (snd (get_subgraph g name st)))
          = Some (objects st ! g)"
    unfolding get_subgraph_G by (rule get_subgraph_deref [OF a])
  also have "\<dots> = deref (objects st) (Some g)"
    using a by (simp add: deref_def)
  finally show ?thesis by (rule filter_reads_G)
qed

lemma example_cross_talk:
  "filter_to_internal_edges
     (objects (snd (get_subgraph 0 ''filter_to_internal_edges'' example_state)))
     (G (snd (get_subgraph 0 ''filter_to_internal_edges'' example_state))) ''A'' ''B'' []
     = Inr True"
  "filter_to_internal_edges
     (objects (snd (get_subgraph 1 ''filter_to_internal_edges''
        (snd (get_subgraph 0 ''filter_to_internal_edges'' example_state)))))
     (G (snd (get_subgraph 1 ''filter_to_internal_edges''
        (snd (get_subgraph 0 ''filter_to_internal_edges'' example_state))))) ''A'' ''B'' []
     = Inr False"
proof -
  let ?st1 = "snd (get_subgraph 0 ''filter_to_internal_edges'' example_state)"
  have "0 < length (objects example_state)" by (simp add: example_objects)
  from filter_after_get_subgraph [OF this]
  show "filter_to_internal_edges (objects ?st1) (G ?st1) ''A'' ''B'' [] = Inr True"
    by (simp add: example_objects example_filter_values)
  have "1 < length (objects ?st1)" by (simp add: example_subgraph)
  from filter_after_get_subgraph [OF this]
  have "filter_to_internal_edges
     (objects (snd (get_subgraph 1 ''filter_to_internal_edges'' ?st1)))
     (G (snd (get_subgraph 1 ''filter_to_internal_edges'' ?st1))) ''A'' ''B'' []
     = filter_to_internal_edges (objects ?st1) (Some 1) ''A'' ''B'' []" .
  also have "\<dots> = filter_to_internal_edges [DiGraph internal_graph, DiGraph external_graph]
      (Some 1) ''A'' ''B'' []"
    by (rule filter_reads_G) (simp add: example_subgraph deref_def)
  finally show "filter_to_internal_edges
     (objects (snd (get_subgraph 1 ''filter_to_internal_edges'' ?st1)))
     (G (snd (get_subgraph 1 ''filter_to_internal_edges'' ?st1))) ''A'' ''B'' []
     = Inr False"
    by (simp only: example_filter_values)
qed

text \<open>
  C9. Every call of \<^verbatim>\<open>get_subgraph(g, name)\<close> leaves the global \<^verbatim>\<open>G\<close> bound to
  \<open>g\<close>, whether it returns or raises, and its own outcome does not depend on what
  \<^verbatim>\<open>G\<close> was bound to before: the rebinding precedes the filtering. After the call
  \<^verbatim>\<open>filter_to_internal_edges\<close> answers from the graph \<open>g\<close>; in general its answer is
  determined by the object \<^verbatim>\<open>G\<close> refers to, besides \<open>u\<close>, \<open>v\<close> and the key. So the
  same arguments can get different answers after two calls of \<^verbatim>\<open>get_subgraph\<close> on
  different graphs.
\<close>

theorem shared_global_graph:
  "G (snd (get_subgraph g name st)) = Some g
   \<and> get_subgraph g name (st\<lparr>G := r\<rparr>) = get_subgraph g name st
   \<and> (g < length (objects st) \<longrightarrow>
        filter_to_internal_edges (objects (snd (get_subgraph g name st)))
            (G (snd (get_subgraph g name st))) u v args
          = filter_to_internal_edges (objects st) (Some g) u v args)
   \<and> (deref objs Gref = deref objs' Gref' \<longrightarrow>
        filter_to_internal_edges objs Gref u v args
          = filter_to_internal_edges objs' Gref' u v args)
   \<and> (\<exists>(s :: string module_state) g1 g2 n a b.
        filter_to_internal_edges (objects (snd (get_subgraph g1 n s)))
            (G (snd (get_subgraph g1 n s))) a b []
        \<noteq> filter_to_internal_edges
            (objects (snd (get_subgraph g2 n (snd (get_subgraph g1 n s)))))
            (G (snd (get_subgraph g2 n (snd (get_subgraph g1 n s))))) a b [])"
proof (intro conjI impI)
  show "G (snd (get_subgraph g name st)) = Some g" by (rule get_subgraph_G)
  show "get_subgraph g name (st\<lparr>G := r\<rparr>) = get_subgraph g name st"
    by (simp add: get_subgraph_def Let_def)
next
  assume "g < length (objects st)"
  then show "filter_to_internal_edges (objects (snd (get_subgraph g name st)))
            (G (snd (get_subgraph g name st))) u v args
          = filter_to_internal_edges (objects st) (Some g) u v args"
    by (rule filter_after_get_subgraph)
next
  assume "deref objs Gref = deref objs' Gref'"
  then show "filter_to_internal_edges objs Gref u v args
          = filter_to_internal_edges objs' Gref' u v args"
    by (rule filter_reads_G)
next
  have "filter_to_internal_edges
     (objects (snd (get_subgraph 0 ''filter_to_internal_edges'' example_state)))
     (G (snd (get_subgraph 0 ''filter_to_internal_edges'' example_state))) ''A'' ''B'' []
    \<noteq> filter_to_internal_edges
     (objects (snd (get_subgraph 1 ''filter_to_internal_edges''
        (snd (get_subgraph 0 ''filter_to_internal_edges'' example_state)))))
     (G (snd (get_subgraph 1 ''filter_to_internal_edges''
        (snd (get_subgraph 0 ''filter_to_internal_edges'' example_state))))) ''A'' ''B'' []"
    by (simp only: example_cross_talk) simp
  then show "\<exists>(s :: string module_state) g1 g2 n a b.
        filter_to_internal_edges (objects (snd (get_subgraph g1 n s)))
            (G (snd (get_subgraph g1 n s))) a b []
        \<noteq> filter_to_internal_edges
            (objects (snd (get_subgraph g2 n (snd (get_subgraph g1 n s)))))
            (G (snd (get_subgraph g2 n (snd (get_subgraph g1 n s))))) a b []"
    by blast
qed

theorem shared_global_graph_witness:
  "G (snd (get_subgraph 1 ''filter_to_internal_edges'' example_state)) = Some 1
   \<and> filter_to_internal_edges
       (objects (snd (get_subgraph 1 ''filter_to_internal_edges'' example_state)))
       (G (snd (get_subgraph 1 ''filter_to_internal_edges'' example_state))) ''A'' ''B'' []
     = Inr False
   \<and> filter_to_internal_edges
       (objects (snd (get_subgraph 0 ''filter_to_internal_edges'' example_state)))
       (G (snd (get_subgraph 0 ''filter_to_internal_edges'' example_state))) ''A'' ''B'' []
     = Inr True"
proof -
  have l1: "(1::nat) < length (objects example_state)"
    and l0: "(0::nat) < length (objects example_state)"
    by (simp_all add: example_objects)
  note t1 = shared_global_graph [of 1 "''filter_to_internal_edges''" example_state None
      "''A''" "''B''" "[]" "[]" None "[]" None]
  note t0 = shared_global_graph [of 0 "''filter_to_internal_edges''" example_state None
      "''A''" "''B''" "[]" "[]" None "[]" None]
  from t1 have a: "G (snd (get_subgraph 1 ''filter_to_internal_edges'' example_state)) = Some 1"
    by (rule conjunct1)
  from t1 l1 have "filter_to_internal_edges
       (objects (snd (get_subgraph 1 ''filter_to_internal_edges'' example_state)))
       (G (snd (get_subgraph 1 ''filter_to_internal_edges'' example_state))) ''A'' ''B'' []
     = filter_to_internal_edges (objects example_state) (Some 1) ''A'' ''B'' []"
    by blast
  then have b: "filter_to_internal_edges
       (objects (snd (get_subgraph 1 ''filter_to_internal_edges'' example_state)))
       (G (snd (get_subgraph 1 ''filter_to_internal_edges'' example_state))) ''A'' ''B'' []
     = Inr False"
    by (simp only: example_objects example_filter_values)
  from t0 l0 have "filter_to_internal_edges
       (objects (snd (get_subgraph 0 ''filter_to_internal_edges'' example_state)))
       (G (snd (get_subgraph 0 ''filter_to_internal_edges'' example_state))) ''A'' ''B'' []
     = filter_to_internal_edges (objects example_state) (Some 0) ''A'' ''B'' []"
    by blast
  then have c: "filter_to_internal_edges
       (objects (snd (get_subgraph 0 ''filter_to_internal_edges'' example_state)))
       (G (snd (get_subgraph 0 ''filter_to_internal_edges'' example_state))) ''A'' ''B'' []
     = Inr True"
    by (simp only: example_objects example_filter_values)
  from a b c show ?thesis by blast
qed

theorem internal_edge_filter_witness:
  "wf_graph (DiGraph internal_graph)
   \<and> filter_to_internal_edges (objects example_state) (Some 0) ''A'' ''B'' [] = Inr True
   \<and> filter_to_internal_edges (objects example_state) (Some 0) ''B'' ''C'' [] = Inr False"
proof -
  let ?l1 = "[\<lparr>internal = Some False\<rparr>, \<lparr>internal = Some True\<rparr>]"
  let ?l2 = "[\<lparr>internal = Some False\<rparr>]"
  let ?d1 = "\<lparr>belief = Some 1, statements = Some ?l1\<rparr>"
  let ?d2 = "\<lparr>belief = None, statements = Some ?l2\<rparr>"
  have g: "deref (objects example_state) (Some 0) = Some (DiGraph internal_graph)"
    by (simp add: example_objects deref_def)
  have wf: "wf_graph (DiGraph internal_graph)" by (simp add: example_wf)
  have e1: "(''A'', ''B'', [], ?d1) \<in> set (edge_calls (DiGraph internal_graph))"
    and e2: "(''B'', ''C'', [], ?d2) \<in> set (edge_calls (DiGraph internal_graph))"
    by (simp_all add: edge_calls_def internal_graph_def)
  have s1: "statements ?d1 = Some ?l1" and s2: "statements ?d2 = Some ?l2" by simp_all
  have k1: "\<forall>s\<in>set ?l1. internal s \<noteq> None" and k2: "\<forall>s\<in>set ?l2. internal s \<noteq> None"
    by auto
  from internal_edge_filter [OF g wf e1 s1 k1]
  have r1: "filter_to_internal_edges (objects example_state) (Some 0) ''A'' ''B'' [] = Inr True"
    by simp
  from internal_edge_filter [OF g wf e2 s2 k2]
  have r2: "filter_to_internal_edges (objects example_state) (Some 0) ''B'' ''C'' [] = Inr False"
    by simp
  from wf r1 r2 show ?thesis by blast
qed

theorem get_subgraph_frame_witness:
  "wf_graph (objects example_state ! 0)
   \<and> fst (get_subgraph 0 ''filter_to_internal_edges'' example_state) = Inr 2
   \<and> objects (snd (get_subgraph 0 ''filter_to_internal_edges'' example_state))
     = [DiGraph internal_graph, DiGraph external_graph,
        DiGraph \<lparr>dnodes = [''A'', ''B'', ''C''],
                 dedges = [(''A'', ''B'', \<lparr>belief = Some 1,
                   statements = Some [\<lparr>internal = Some False\<rparr>, \<lparr>internal = Some True\<rparr>]\<rparr>)]\<rparr>]"
proof -
  have ref: "0 < length (objects example_state)" by (simp add: example_objects)
  have wf: "wf_graph (objects example_state ! 0)" by (simp add: example_objects example_wf)
  have tot: "\<forall>(u, v, args, d)\<in>set (edge_calls (objects example_state ! 0)).
      \<exists>b. filter_to_internal_edges (objects example_state) (Some 0) u v args = Inr b"
  proof -
    have "edge_calls (DiGraph internal_graph)
        = [(''A'', ''B'', [], \<lparr>belief = Some 1,
              statements = Some [\<lparr>internal = Some False\<rparr>, \<lparr>internal = Some True\<rparr>]\<rparr>),
           (''B'', ''C'', [], \<lparr>belief = None, statements = Some [\<lparr>internal = Some False\<rparr>]\<rparr>)]"
      by (simp add: edge_calls_def internal_graph_def)
    then show ?thesis by (auto simp: example_objects example_filter_values)
  qed
  from get_subgraph_frame [OF ref wf example_registry(1)] tot
  obtain new_g where "get_subgraph 0 ''filter_to_internal_edges'' example_state
      = (Inr (length (objects example_state)),
         example_state\<lparr>G := Some 0, objects := objects example_state @ [new_g]\<rparr>)"
    by blast
  then have "fst (get_subgraph 0 ''filter_to_internal_edges'' example_state) = Inr 2"
    by (simp add: example_objects)
  with wf example_subgraph(2) show ?thesis by simp
qed

text \<open>
  C4, as stated, fails: with a name that is not registered, on a graph that has an edge,
  \<^verbatim>\<open>get_subgraph\<close> raises \<^verbatim>\<open>TypeError\<close>.
\<close>

theorem unregistered_filter_counterexample:
  "fst (get_subgraph 0 ''no_such_filter'' example_state) = Inl TypeError"
proof -
  have "subgraph_copy None (DiGraph internal_graph) = Inl TypeError"
    by (simp add: subgraph_copy_def adj_order_def call_filter_def internal_graph_def)
  then show ?thesis
    by (simp add: get_subgraph_def Let_def deref_def example_registry example_objects)
qed

theorem unregistered_filter_witness:
  "wf_graph (objects example_state ! 0)
   \<and> get_subgraph 0 ''no_such_filter'' example_state
       = (Inl TypeError, example_state\<lparr>G := Some 0\<rparr>)"
proof -
  have ref: "0 < length (objects example_state)" by (simp add: example_objects)
  have wf: "wf_graph (objects example_state ! 0)" by (simp add: example_objects example_wf)
  have ne: "edge_calls (objects example_state ! 0) \<noteq> []"
    by (simp add: example_objects edge_calls_def internal_graph_def)
  from unregistered_filter [OF ref wf example_registry(2)] ne wf
  show ?thesis by simp
qed

end
